theory Spec2Isabelle
  imports Complex_Main "HOL-Library.Log_Nat" "HOL-Library.Multiset"
begin

section \<open>Python floats (IEEE 754 binary64)\<close>

text \<open>
  The two source files are the English and the Spanish edition of one program; the methods
  modelled here differ between them only in comments and message texts.

  The program computes with Python \<^verbatim>\<open>float\<close>s. A finite float is modelled by the
  rational number it denotes; every arithmetic result is the exact rational result rounded
  to the nearest binary64 value, ties to the even significand. The sign of zero is not
  modelled: no operation of the program observes it.
\<close>

definition pow2 :: "int \<Rightarrow> rat" where
  "pow2 k = (if 0 \<le> k then 2 ^ nat k else 1 / 2 ^ nat (- k))"

definition round_half_even :: "rat \<Rightarrow> int" where
  "round_half_even x =
     (let f = \<lfloor>x\<rfloor>; d = x - of_int f
      in if d < 1 / 2 then f
         else if 1 / 2 < d then f + 1
         else if even f then f else f + 1)"

text \<open>\<open>ilog2 q\<close> is the binary exponent of a positive rational: \<open>2^e \<le> q < 2^(e+1)\<close>.\<close>

definition ilog2 :: "rat \<Rightarrow> int" where
  "ilog2 q =
     (let (a, b) = quotient_of q; d = bitlen a - bitlen b
      in if pow2 d \<le> q then d else d - 1)"

text \<open>
  Rounding to 53 significant bits (to a multiple of \<open>2^-1074\<close> below the normal range).
  The exponent is not bounded above here; \<open>fl\<close> below adds the overflow to infinity.
\<close>

definition round_to_double :: "rat \<Rightarrow> rat" where
  "round_to_double q =
     (if q = 0 then 0
      else let e = max (ilog2 \<bar>q\<bar>) (- 1022); ulp = pow2 (e - 52)
           in sgn q * of_int (round_half_even (\<bar>q\<bar> / ulp)) * ulp)"

datatype pyfloat = Finite rat | PInf | NInf | NaN

text \<open>
  The result of an arithmetic operation: the rounded value, or an infinity when its binary
  exponent is beyond 1023, the largest of binary64.
\<close>

definition fl :: "rat \<Rightarrow> pyfloat" where
  "fl q =
     (let v = round_to_double q
      in if v \<noteq> 0 \<and> 1024 \<le> ilog2 \<bar>v\<bar> then (if 0 < v then PInf else NInf)
         else Finite v)"

text \<open>A decimal literal \<^verbatim>\<open>a/b\<close> of the source text denotes the nearest float.\<close>

definition lit :: "int \<Rightarrow> int \<Rightarrow> rat" where
  "lit a b = round_to_double (of_int a / of_int b)"

text \<open>
  \<^verbatim>\<open>n * c\<close> for a list length \<^verbatim>\<open>n\<close> and a float literal \<^verbatim>\<open>c\<close>: the length is converted
  to a float and the product is rounded. A length is below \<open>2^63\<close>, so neither step can
  leave the binary64 range and the product is a finite float.
\<close>

definition len_times :: "int \<Rightarrow> rat \<Rightarrow> rat" where
  "len_times n c = round_to_double (round_to_double (of_int n) * c)"

text \<open>\<^verbatim>\<open>round(x)\<close> of a finite float: the nearest integer, ties to even.\<close>

definition py_round :: "rat \<Rightarrow> int" where
  "py_round x = round_half_even x"

section \<open>The application state\<close>

text \<open>
  The attributes of the \<^verbatim>\<open>NuSui\<close> object the modelled methods read and write. The three
  Tk variables of the recommendation form hold the decimal strings the sliders write; the
  model keeps the numbers \<^verbatim>\<open>float()\<close> and \<^verbatim>\<open>int()\<close> read from them.
\<close>

record nusui =
  crankset_teeth :: "int list"
  cassette_teeth :: "int list"
  wheel_sizes :: "string \<rightharpoonup> pyfloat"
  wheel_size_var :: string
  wheel_combo_values :: "string list"
  manual_config_button_enabled :: bool
  target_speed_var :: pyfloat
  slope_var :: pyfloat
  cadencia_var :: int

section \<open>The chain-crossing classifier\<close>

definition msg_large :: string where
  "msg_large = ''Large chainring with large sprocket: increases wear and reduces efficiency''"

definition msg_small :: string where
  "msg_small = ''Small chainring with small sprocket: increases wear and reduces efficiency''"

definition msg_middle :: string where
  "msg_middle = ''Middle chainring with extreme sprocket: may cause wear''"

definition msg_intermediate :: string where
  "msg_intermediate = ''Intermediate chainring with extreme sprocket: may cause wear''"

text \<open>
  \<^verbatim>\<open>is_chain_crossing(self, chainring_idx, sprocket_idx)\<close>. The debug prints are left out.
\<close>

definition is_chain_crossing :: "'a nusui_scheme \<Rightarrow> int \<Rightarrow> int \<Rightarrow> bool \<times> string option" where
  "is_chain_crossing self chainring_idx sprocket_idx =
     (let num_chainrings = int (length (crankset_teeth self));
          num_sprockets = int (length (cassette_teeth self))
      in if num_chainrings \<le> 1 then (False, None)
         else if num_chainrings = 2 then
           (let extreme_count = max 2 (py_round (len_times num_sprockets (lit 35 100)))
            in if chainring_idx = 0 \<and> sprocket_idx \<ge> num_sprockets - extreme_count
               then (True, Some msg_large)
               else if chainring_idx = num_chainrings - 1 \<and> sprocket_idx < extreme_count
               then (True, Some msg_small)
               else (False, None))
         else if num_chainrings = 3 then
           (let extreme_count_large = max 2 (py_round (len_times num_sprockets (lit 4 10)));
                extreme_count_small = max 2 (py_round (len_times num_sprockets (lit 4 10)));
                medium_extreme_large = max 1 (py_round (len_times num_sprockets (lit 15 100)));
                medium_extreme_small = max 1 (py_round (len_times num_sprockets (lit 15 100)))
            in if chainring_idx = 0 \<and> sprocket_idx \<ge> num_sprockets - extreme_count_large
               then (True, Some msg_large)
               else if chainring_idx = num_chainrings - 1 \<and> sprocket_idx < extreme_count_small
               then (True, Some msg_small)
               else if chainring_idx = 1 \<and>
                       (sprocket_idx \<ge> num_sprockets - medium_extreme_large \<or>
                        sprocket_idx < medium_extreme_small)
               then (True, Some msg_middle)
               else (False, None))
         else
           (let extreme_count = max 1 (py_round (len_times num_sprockets (lit 3 10)))
            in if chainring_idx = 0 \<and> sprocket_idx \<ge> num_sprockets - extreme_count
               then (True, Some msg_large)
               else if chainring_idx = num_chainrings - 1 \<and> sprocket_idx < extreme_count
               then (True, Some msg_small)
               else if int (length (crankset_teeth self)) > 2 \<and> 0 < chainring_idx \<and>
                       chainring_idx < int (length (crankset_teeth self)) - 1 \<and>
                       (sprocket_idx = 0 \<or> sprocket_idx \<ge> num_sprockets - 1)
               then (True, Some msg_intermediate)
               else (False, None)))"

section \<open>Float operations and exceptions\<close>

datatype py_error =
  ValueError string | ZeroDivisionError | OverflowError | TypeError | KeyError string
  | UnboundLocalError | IndexError | AttributeError

text \<open>An \<^verbatim>\<open>int\<close> operand of a float operation is converted first; too large a one raises.\<close>

definition py_float_of_int :: "int \<Rightarrow> py_error + pyfloat" where
  "py_float_of_int n =
     (case fl (of_int n) of Finite v \<Rightarrow> Inr (Finite v) | _ \<Rightarrow> Inl OverflowError)"

text \<open>\<^verbatim>\<open>a / b\<close> on two \<^verbatim>\<open>int\<close>s: the correctly rounded quotient.\<close>

definition py_int_truediv :: "int \<Rightarrow> int \<Rightarrow> py_error + pyfloat" where
  "py_int_truediv a b =
     (if b = 0 then Inl ZeroDivisionError
      else case fl (of_int a / of_int b) of
             Finite v \<Rightarrow> Inr (Finite v)
           | _ \<Rightarrow> Inl OverflowError)"

fun py_mul :: "pyfloat \<Rightarrow> pyfloat \<Rightarrow> pyfloat" where
  "py_mul (Finite a) (Finite b) = fl (a * b)"
| "py_mul NaN _ = NaN"
| "py_mul _ NaN = NaN"
| "py_mul (Finite a) PInf = (if a = 0 then NaN else if 0 < a then PInf else NInf)"
| "py_mul (Finite a) NInf = (if a = 0 then NaN else if 0 < a then NInf else PInf)"
| "py_mul PInf (Finite b) = (if b = 0 then NaN else if 0 < b then PInf else NInf)"
| "py_mul NInf (Finite b) = (if b = 0 then NaN else if 0 < b then NInf else PInf)"
| "py_mul PInf PInf = PInf"
| "py_mul PInf NInf = NInf"
| "py_mul NInf PInf = NInf"
| "py_mul NInf NInf = PInf"

fun py_sub :: "pyfloat \<Rightarrow> pyfloat \<Rightarrow> pyfloat" where
  "py_sub (Finite a) (Finite b) = fl (a - b)"
| "py_sub NaN _ = NaN"
| "py_sub _ NaN = NaN"
| "py_sub (Finite a) PInf = NInf"
| "py_sub (Finite a) NInf = PInf"
| "py_sub PInf (Finite b) = PInf"
| "py_sub NInf (Finite b) = NInf"
| "py_sub PInf PInf = NaN"
| "py_sub PInf NInf = PInf"
| "py_sub NInf PInf = NInf"
| "py_sub NInf NInf = NaN"

text \<open>Float division raises on a zero divisor, whatever the dividend.\<close>

fun py_div :: "pyfloat \<Rightarrow> pyfloat \<Rightarrow> py_error + pyfloat" where
  "py_div (Finite a) (Finite b) = (if b = 0 then Inl ZeroDivisionError else Inr (fl (a / b)))"
| "py_div NaN (Finite b) = (if b = 0 then Inl ZeroDivisionError else Inr NaN)"
| "py_div PInf (Finite b) =
     (if b = 0 then Inl ZeroDivisionError else Inr (if 0 < b then PInf else NInf))"
| "py_div NInf (Finite b) =
     (if b = 0 then Inl ZeroDivisionError else Inr (if 0 < b then NInf else PInf))"
| "py_div (Finite a) PInf = Inr (Finite 0)"
| "py_div (Finite a) NInf = Inr (Finite 0)"
| "py_div _ _ = Inr NaN"

fun py_abs :: "pyfloat \<Rightarrow> pyfloat" where
  "py_abs (Finite a) = Finite \<bar>a\<bar>"
| "py_abs PInf = PInf"
| "py_abs NInf = PInf"
| "py_abs NaN = NaN"

text \<open>\<^verbatim>\<open>x < y\<close>; every comparison with NaN is false. An \<^verbatim>\<open>int\<close> is compared exactly.\<close>

fun py_lt :: "pyfloat \<Rightarrow> pyfloat \<Rightarrow> bool" where
  "py_lt NaN _ = False"
| "py_lt _ NaN = False"
| "py_lt (Finite a) (Finite b) = (a < b)"
| "py_lt (Finite a) PInf = True"
| "py_lt (Finite a) NInf = False"
| "py_lt PInf _ = False"
| "py_lt NInf NInf = False"
| "py_lt NInf _ = True"

fun py_le :: "pyfloat \<Rightarrow> pyfloat \<Rightarrow> bool" where
  "py_le NaN _ = False"
| "py_le _ NaN = False"
| "py_le x y = (\<not> py_lt y x)"

text \<open>
  The decorator \<^verbatim>\<open>handle_errors\<close>: an exception of the wrapped method is shown in a message
  box and the call returns \<^verbatim>\<open>None\<close>.
\<close>

definition handle_errors :: "py_error + 'a \<Rightarrow> 'a option" where
  "handle_errors r = (case r of Inl e \<Rightarrow> None | Inr v \<Rightarrow> Some v)"

section \<open>Configuration and gear math\<close>

definition MIN_TEETH :: int where "MIN_TEETH = 11"
definition MAX_TEETH :: int where "MAX_TEETH = 53"
definition MIN_CADENCE :: int where "MIN_CADENCE = 60"
definition MAX_CADENCE :: int where "MAX_CADENCE = 100"

text \<open>\<^verbatim>\<open>validate_gear_configuration\<close>: the answer, without the warning dialogs.\<close>

definition validate_gear_configuration :: "'a nusui_scheme \<Rightarrow> bool" where
  "validate_gear_configuration self =
     (if crankset_teeth self = [] \<or> cassette_teeth self = [] then False
      else list_all (\<lambda>teeth. MIN_TEETH \<le> teeth \<and> teeth \<le> MAX_TEETH)
             (crankset_teeth self @ cassette_teeth self))"

text \<open>The body of \<^verbatim>\<open>calculate_gear_ratio\<close>; callers see it through \<open>handle_errors\<close>.\<close>

definition calculate_gear_ratio :: "int \<Rightarrow> int \<Rightarrow> py_error + pyfloat" where
  "calculate_gear_ratio chainring sprocket =
     (if sprocket = 0 then Inl (ValueError ''Sprocket cannot have 0 teeth'')
      else py_int_truediv chainring sprocket)"

text \<open>
  The body of \<^verbatim>\<open>calculate_speed\<close>. The gear ratio is whatever the caller got from
  \<^verbatim>\<open>calculate_gear_ratio\<close>, possibly \<^verbatim>\<open>None\<close>.
\<close>

definition calculate_speed :: "'a nusui_scheme \<Rightarrow> pyfloat option \<Rightarrow> int \<Rightarrow> py_error + pyfloat" where
  "calculate_speed self gear_ratio cadence =
     (case wheel_sizes self (wheel_size_var self) of
        None \<Rightarrow> Inl (KeyError (wheel_size_var self))
      | Some wheel_circum \<Rightarrow>
          (case gear_ratio of
             None \<Rightarrow> Inl TypeError
           | Some g \<Rightarrow>
               (case py_float_of_int cadence of
                  Inl e \<Rightarrow> Inl e
                | Inr c \<Rightarrow>
                    py_div (py_mul (py_mul (py_mul g wheel_circum) c) (Finite 60))
                      (Finite 1000))))"

section \<open>The recommendation engine\<close>

text \<open>
  The statements both search loops of \<^verbatim>\<open>calculate_recommended_gear\<close> run for one pair:
  gear ratio, speed, slope adjustment and the distance \<^verbatim>\<open>diff\<close> to the target speed.
\<close>

definition gear_diff :: "'a nusui_scheme \<Rightarrow> int \<Rightarrow> int \<Rightarrow> py_error + pyfloat" where
  "gear_diff self chainring sprocket =
     (let gear_ratio = handle_errors (calculate_gear_ratio chainring sprocket);
          speed = handle_errors (calculate_speed self gear_ratio (cadencia_var self))
      in case speed of
           None \<Rightarrow> Inl TypeError
         | Some sp \<Rightarrow>
             (case py_div (slope_var self) (Finite 100) of
                Inl e \<Rightarrow> Inl e
              | Inr a \<Rightarrow>
                  (let adjusted_speed =
                         py_mul sp (py_sub (Finite 1) (py_mul a (Finite (lit 1 10))))
                   in Inr (py_abs (py_sub adjusted_speed (target_speed_var self))))))"

text \<open>A \<^verbatim>\<open>for\<close> loop whose body may raise: the first exception ends it.\<close>

fun for_loop :: "('s \<Rightarrow> 'a \<Rightarrow> 'e + 's) \<Rightarrow> 'a list \<Rightarrow> 's \<Rightarrow> 'e + 's" where
  "for_loop body [] s = Inr s"
| "for_loop body (x # xs) s =
     (case body s x of Inl e \<Rightarrow> Inl e | Inr s' \<Rightarrow> for_loop body xs s')"

definition py_enumerate :: "'a list \<Rightarrow> (int \<times> 'a) list" where
  "py_enumerate xs = zip (map int [0..<length xs]) xs"

text \<open>
  The first search keeps \<^verbatim>\<open>min_diff\<close>, \<^verbatim>\<open>best_chainring\<close> and \<^verbatim>\<open>best_sprocket\<close>; it skips
  the crossing pairs.
\<close>

definition first_pass_body ::
  "'a nusui_scheme \<Rightarrow> int \<times> int \<Rightarrow> pyfloat \<times> int option \<times> int option \<Rightarrow> int \<times> int \<Rightarrow>
   py_error + pyfloat \<times> int option \<times> int option" where
  "first_pass_body self ic st js =
     (case (ic, st, js) of ((i, chainring), (min_diff, best_chainring, best_sprocket), (j, sprocket)) \<Rightarrow>
        if fst (is_chain_crossing self i j) then Inr st
        else case gear_diff self chainring sprocket of
               Inl e \<Rightarrow> Inl e
             | Inr diff \<Rightarrow>
                 if py_lt diff min_diff then Inr (diff, Some chainring, Some sprocket)
                 else Inr st)"

definition first_pass :: "'a nusui_scheme \<Rightarrow> py_error + pyfloat \<times> int option \<times> int option" where
  "first_pass self =
     for_loop (\<lambda>st ic. for_loop (first_pass_body self ic) (py_enumerate (cassette_teeth self)) st)
       (py_enumerate (crankset_teeth self)) (PInf, None, None)"

text \<open>The second search looks at every pair and also keeps the winning indices.\<close>

definition second_pass_body ::
  "'a nusui_scheme \<Rightarrow> int \<times> int \<Rightarrow>
   pyfloat \<times> int option \<times> int option \<times> int option \<times> int option \<Rightarrow> int \<times> int \<Rightarrow>
   py_error + pyfloat \<times> int option \<times> int option \<times> int option \<times> int option" where
  "second_pass_body self ic st js =
     (case (ic, st, js) of
        ((i, chainring), (min_diff, best_chainring, best_sprocket, best_i, best_j), (j, sprocket)) \<Rightarrow>
        case gear_diff self chainring sprocket of
          Inl e \<Rightarrow> Inl e
        | Inr diff \<Rightarrow>
            if py_lt diff min_diff then Inr (diff, Some chainring, Some sprocket, Some i, Some j)
            else Inr st)"

definition second_pass ::
  "'a nusui_scheme \<Rightarrow> int option \<Rightarrow> int option \<Rightarrow>
   py_error + pyfloat \<times> int option \<times> int option \<times> int option \<times> int option" where
  "second_pass self best_chainring best_sprocket =
     for_loop (\<lambda>st ic. for_loop (second_pass_body self ic) (py_enumerate (cassette_teeth self)) st)
       (py_enumerate (crankset_teeth self)) (PInf, best_chainring, best_sprocket, None, None)"

text \<open>\<^verbatim>\<open>xs.index(x) + 1\<close>: the first position of the value, counted from one.\<close>

fun index_plus_one :: "int list \<Rightarrow> int \<Rightarrow> py_error + int" where
  "index_plus_one [] x = Inl (ValueError ''not in list'')"
| "index_plus_one (y # ys) x =
     (if y = x then Inr 1
      else case index_plus_one ys x of Inl e \<Rightarrow> Inl e | Inr k \<Rightarrow> Inr (k + 1))"

text \<open>The four tips, by the branch that chooses them.\<close>

datatype advice = SteepClimb | MildClimb | Descent | Flat

text \<open>What the results panel shows.\<close>

record recommendation =
  rec_chainring :: int
  rec_sprocket :: int
  rec_chainring_idx :: int
  rec_sprocket_idx :: int
  rec_speed :: pyfloat
  rec_gear_ratio :: pyfloat
  rec_development :: pyfloat
  rec_crossing :: bool
  rec_advice :: advice

text \<open>
  The display part of \<^verbatim>\<open>calculate_recommended_gear\<close>, from \<^verbatim>\<open>if best_chainring and
  best_sprocket\<close> on. A \<^verbatim>\<open>None\<close> cannot be formatted with \<^verbatim>\<open>.1f\<close>: a TypeError.
\<close>

definition show_recommendation ::
  "'a nusui_scheme \<Rightarrow> int option \<Rightarrow> int option \<Rightarrow> bool \<Rightarrow> py_error + recommendation option" where
  "show_recommendation self best_chainring best_sprocket crossing =
     (case (best_chainring, best_sprocket) of
        (Some bc, Some bs) \<Rightarrow>
          if bc = 0 \<or> bs = 0 then Inr None
          else
            (let gear_ratio = handle_errors (calculate_gear_ratio bc bs);
                 actual_speed = handle_errors (calculate_speed self gear_ratio (cadencia_var self))
             in case index_plus_one (crankset_teeth self) bc of
                  Inl e \<Rightarrow> Inl e
                | Inr chainring_idx \<Rightarrow>
                    (case index_plus_one (cassette_teeth self) bs of
                       Inl e \<Rightarrow> Inl e
                     | Inr sprocket_idx \<Rightarrow>
                         (case (actual_speed, gear_ratio) of
                            (Some sp, Some g) \<Rightarrow>
                              (case wheel_sizes self (wheel_size_var self) of
                                 None \<Rightarrow> Inl (KeyError (wheel_size_var self))
                               | Some wheel_circum \<Rightarrow>
                                   Inr (Some
                                     \<lparr>rec_chainring = bc, rec_sprocket = bs,
                                      rec_chainring_idx = chainring_idx,
                                      rec_sprocket_idx = sprocket_idx,
                                      rec_speed = sp, rec_gear_ratio = g,
                                      rec_development = py_mul g wheel_circum,
                                      rec_crossing = crossing,
                                      rec_advice =
                                        (if py_lt (Finite 8) (slope_var self) then SteepClimb
                                         else if py_lt (Finite 0) (slope_var self) then MildClimb
                                         else if py_lt (slope_var self) (Finite (- 5)) then Descent
                                         else Flat)\<rparr>))
                          | _ \<Rightarrow> Inl TypeError)))
      | _ \<Rightarrow> Inr None)"

text \<open>
  The body of \<^verbatim>\<open>calculate_recommended_gear\<close>: the panel's content (\<open>None\<close> when nothing is
  shown) or the exception that \<open>handle_errors\<close> reports.
\<close>

definition calculate_recommended_gear :: "'a nusui_scheme \<Rightarrow> py_error + recommendation option" where
  "calculate_recommended_gear self =
     (case first_pass self of
        Inl e \<Rightarrow> Inl e
      | Inr (min_diff, best_chainring, best_sprocket) \<Rightarrow>
          if best_chainring = None then
            (case second_pass self best_chainring best_sprocket of
               Inl e \<Rightarrow> Inl e
             | Inr (min_diff2, best_chainring2, best_sprocket2, best_i, best_j) \<Rightarrow>
                 (case (best_i, best_j) of
                    (Some i, Some j) \<Rightarrow>
                      show_recommendation self best_chainring2 best_sprocket2
                        (fst (is_chain_crossing self i j))
                  | _ \<Rightarrow> Inl UnboundLocalError))
          else show_recommendation self best_chainring best_sprocket False)"

section \<open>Building the configuration\<close>

















section \<open>The overlap analysis\<close>

text \<open>\<^verbatim>\<open>xs[i]\<close> for a non-negative index.\<close>

definition py_nth :: "'a list \<Rightarrow> nat \<Rightarrow> py_error + 'a" where
  "py_nth xs i = (if i < length xs then Inr (xs ! i) else Inl IndexError)"

text \<open>\<^verbatim>\<open>min(xs)\<close> and \<^verbatim>\<open>max(xs)\<close> of a list: the first element unless a later one compares
  smaller (larger); an empty list raises.\<close>

definition py_min_list :: "pyfloat list \<Rightarrow> py_error + pyfloat" where
  "py_min_list xs =
     (case xs of [] \<Rightarrow> Inl (ValueError ''min() arg is an empty sequence'')
      | x # rest \<Rightarrow> Inr (fold (\<lambda>y m. if py_lt y m then y else m) rest x))"

definition py_max_list :: "pyfloat list \<Rightarrow> py_error + pyfloat" where
  "py_max_list xs =
     (case xs of [] \<Rightarrow> Inl (ValueError ''max() arg is an empty sequence'')
      | x # rest \<Rightarrow> Inr (fold (\<lambda>y m. if py_lt m y then y else m) rest x))"

text \<open>\<^verbatim>\<open>min(a, b)\<close> and \<^verbatim>\<open>max(a, b)\<close>: the first argument unless the second compares
  smaller (larger).\<close>

definition py_min2 :: "pyfloat \<Rightarrow> pyfloat \<Rightarrow> pyfloat" where
  "py_min2 a b = (if py_lt b a then b else a)"

definition py_max2 :: "pyfloat \<Rightarrow> pyfloat \<Rightarrow> pyfloat" where
  "py_max2 a b = (if py_lt a b then b else a)"

text \<open>\<^verbatim>\<open>[ratios[j] for j in range(len(ratios)) if not crosses[i][j]]\<close>\<close>

fun filter_row :: "pyfloat list \<Rightarrow> bool list list \<Rightarrow> nat \<Rightarrow> nat \<Rightarrow> py_error + pyfloat list" where
  "filter_row [] crosses i j = Inr []"
| "filter_row (r # rs) crosses i j =
     (case py_nth crosses i of
        Inl e \<Rightarrow> Inl e
      | Inr row \<Rightarrow>
          (case py_nth row j of
             Inl e \<Rightarrow> Inl e
           | Inr c \<Rightarrow>
               (case filter_row rs crosses i (Suc j) of
                  Inl e \<Rightarrow> Inl e
                | Inr kept \<Rightarrow> Inr (if c then kept else r # kept))))"

datatype ratio_basis = WithoutCrossings | IncludingCrossings | Unfiltered

datatype overlap_evaluation = LowOverlap | ModerateOverlap | HighOverlap

datatype pair_overlap =
  Overlapping pyfloat pyfloat pyfloat overlap_evaluation | NoOverlap

datatype range_evaluation = LimitedRange | ModerateRange | WideRange

text \<open>The four extremes of an adjacent pair and the heading they are reported under.\<close>

definition pair_ranges ::
  "pyfloat list \<Rightarrow> pyfloat list \<Rightarrow> bool list list option \<Rightarrow> nat \<Rightarrow>
   py_error + ratio_basis \<times> pyfloat \<times> pyfloat \<times> pyfloat \<times> pyfloat" where
  "pair_ranges ratios1 ratios2 crosses i =
     (let plain = (\<lambda>basis.
            case py_min_list ratios1 of Inl e \<Rightarrow> Inl e | Inr min_ratio1 \<Rightarrow>
            case py_max_list ratios1 of Inl e \<Rightarrow> Inl e | Inr max_ratio1 \<Rightarrow>
            case py_min_list ratios2 of Inl e \<Rightarrow> Inl e | Inr min_ratio2 \<Rightarrow>
            case py_max_list ratios2 of Inl e \<Rightarrow> Inl e | Inr max_ratio2 \<Rightarrow>
              Inr (basis, min_ratio1, max_ratio1, min_ratio2, max_ratio2))
      in case crosses of
           None \<Rightarrow> plain Unfiltered
         | Some [] \<Rightarrow> plain Unfiltered
         | Some cr \<Rightarrow>
             (case filter_row ratios1 cr i 0 of Inl e \<Rightarrow> Inl e | Inr filtered_ratios1 \<Rightarrow>
              case filter_row ratios2 cr (i + 1) 0 of Inl e \<Rightarrow> Inl e | Inr filtered_ratios2 \<Rightarrow>
                if filtered_ratios1 \<noteq> [] \<and> filtered_ratios2 \<noteq> [] then
                  (case py_min_list filtered_ratios1 of Inl e \<Rightarrow> Inl e | Inr min_ratio1 \<Rightarrow>
                   case py_max_list filtered_ratios1 of Inl e \<Rightarrow> Inl e | Inr max_ratio1 \<Rightarrow>
                   case py_min_list filtered_ratios2 of Inl e \<Rightarrow> Inl e | Inr min_ratio2 \<Rightarrow>
                   case py_max_list filtered_ratios2 of Inl e \<Rightarrow> Inl e | Inr max_ratio2 \<Rightarrow>
                     Inr (WithoutCrossings, min_ratio1, max_ratio1, min_ratio2, max_ratio2))
                else plain IncludingCrossings))"

text \<open>One round of the loop over adjacent chainrings.\<close>

definition overlap_of_pair ::
  "'a nusui_scheme \<Rightarrow> pyfloat list list \<Rightarrow> bool list list option \<Rightarrow> nat \<Rightarrow>
   py_error + ratio_basis \<times> pair_overlap" where
  "overlap_of_pair self all_ratios crosses i =
     (case py_nth (crankset_teeth self) i of Inl e \<Rightarrow> Inl e | Inr chainring1 \<Rightarrow>
      case py_nth (crankset_teeth self) (i + 1) of Inl e \<Rightarrow> Inl e | Inr chainring2 \<Rightarrow>
      case py_nth all_ratios i of Inl e \<Rightarrow> Inl e | Inr ratios1 \<Rightarrow>
      case py_nth all_ratios (i + 1) of Inl e \<Rightarrow> Inl e | Inr ratios2 \<Rightarrow>
      case pair_ranges ratios1 ratios2 crosses i of
        Inl e \<Rightarrow> Inl e
      | Inr (basis, min_ratio1, max_ratio1, min_ratio2, max_ratio2) \<Rightarrow>
          (let overlap_start = py_max2 min_ratio1 min_ratio2;
               overlap_end = py_min2 max_ratio1 max_ratio2
           in if py_le overlap_start overlap_end then
                (case py_div (py_sub overlap_end overlap_start) (py_sub max_ratio1 min_ratio1) of
                   Inl e \<Rightarrow> Inl e
                 | Inr q \<Rightarrow>
                     (let overlap_pct = py_mul q (Finite 100)
                      in Inr (basis,
                           Overlapping overlap_start overlap_end overlap_pct
                             (if py_lt overlap_pct (Finite 10) then LowOverlap
                              else if py_lt overlap_pct (Finite 30) then ModerateOverlap
                              else HighOverlap))))
              else Inr (basis, NoOverlap)))"

text \<open>The results of a loop body over a range of indices, up to the first exception.\<close>

fun collect :: "(nat \<Rightarrow> py_error + 'b) \<Rightarrow> nat list \<Rightarrow> py_error + 'b list" where
  "collect f [] = Inr []"
| "collect f (i # is) =
     (case f i of
        Inl e \<Rightarrow> Inl e
      | Inr y \<Rightarrow> (case collect f is of Inl e \<Rightarrow> Inl e | Inr ys \<Rightarrow> Inr (y # ys)))"

text \<open>\<^verbatim>\<open>max_ratio / min_ratio\<close> of a list of ratios.\<close>

definition range_ratio :: "pyfloat list \<Rightarrow> py_error + pyfloat" where
  "range_ratio ratios =
     (case py_min_list ratios of Inl e \<Rightarrow> Inl e | Inr min_ratio \<Rightarrow>
      case py_max_list ratios of Inl e \<Rightarrow> Inl e | Inr max_ratio \<Rightarrow>
        py_div max_ratio min_ratio)"

text \<open>
  The numbers and verdicts the report text is formatted from: one entry for each adjacent
  pair of chainrings, the total range over the non-crossing ratios (absent without crossing
  information, \<open>Some None\<close> when it cannot be calculated) and the total range over all.
\<close>

record overlap_report =
  pair_reports :: "(ratio_basis \<times> pair_overlap) list"
  range_without_crossings :: "pyfloat option option"
  range_including_crossings :: pyfloat
  range_evaluation :: range_evaluation

datatype overlap_result = NeedsTwoChainrings | Report overlap_report

text \<open>The body of \<^verbatim>\<open>calculate_overlap_analysis(self, all_ratios, crosses)\<close>.\<close>

definition calculate_overlap_analysis ::
  "'a nusui_scheme \<Rightarrow> pyfloat list list \<Rightarrow> bool list list option \<Rightarrow> py_error + overlap_result" where
  "calculate_overlap_analysis self all_ratios crosses =
     (if length all_ratios \<le> 1 then Inr NeedsTwoChainrings
      else
        case collect (overlap_of_pair self all_ratios crosses) [0..<length all_ratios - 1] of
          Inl e \<Rightarrow> Inl e
        | Inr reports \<Rightarrow>
            (case (case crosses of
                     None \<Rightarrow> Inr None
                   | Some [] \<Rightarrow> Inr None
                   | Some cr \<Rightarrow>
                       (case collect (\<lambda>i. filter_row (all_ratios ! i) cr i 0)
                               [0..<length all_ratios] of
                          Inl e \<Rightarrow> Inl e
                        | Inr rows \<Rightarrow>
                            if concat rows \<noteq> [] then
                              (case range_ratio (concat rows) of
                                 Inl e \<Rightarrow> Inl e
                               | Inr r \<Rightarrow> Inr (Some (Some r)))
                            else Inr (Some None))) of
               Inl e \<Rightarrow> Inl e
             | Inr without \<Rightarrow>
                 (case range_ratio (concat all_ratios) of
                    Inl e \<Rightarrow> Inl e
                  | Inr r \<Rightarrow>
                      Inr (Report
                        \<lparr>pair_reports = reports,
                         range_without_crossings = without,
                         range_including_crossings = r,
                         range_evaluation =
                           (if py_lt r (Finite 3) then LimitedRange
                            else if py_lt r (Finite 5) then ModerateRange
                            else WideRange)\<rparr>))))"

section \<open>Inputs the form and the catalog can supply\<close>

text \<open>
  The three sliders of the form run from 5 to 50 km/h, from -10 to 20 percent and from
  \<open>MIN_CADENCE\<close> to \<open>MAX_CADENCE\<close>.
\<close>

definition form_in_range :: "'a nusui_scheme \<Rightarrow> bool" where
  "form_in_range self =
     ((case target_speed_var self of Finite t \<Rightarrow> 5 \<le> t \<and> t \<le> 50 | _ \<Rightarrow> False) \<and>
      (case slope_var self of Finite s \<Rightarrow> - 10 \<le> s \<and> s \<le> 20 | _ \<Rightarrow> False) \<and>
      MIN_CADENCE \<le> cadencia_var self \<and> cadencia_var self \<le> MAX_CADENCE)"

text \<open>
  The selected wheel size is a key of the table and its circumference is a positive finite
  float of at most three metres (the table's entries lie between 0.935 and 2.326).
\<close>

definition wheel_selected :: "'a nusui_scheme \<Rightarrow> bool" where
  "wheel_selected self =
     (case wheel_sizes self (wheel_size_var self) of
        Some (Finite w) \<Rightarrow> 0 < w \<and> w \<le> 3
      | _ \<Rightarrow> False)"

text \<open>A finite float of magnitude at most \<open>B\<close>.\<close>

definition fin_le :: "rat \<Rightarrow> pyfloat \<Rightarrow> bool" where
  "fin_le B x = (case x of Finite v \<Rightarrow> \<bar>v\<bar> \<le> B | _ \<Rightarrow> False)"

text \<open>A finite float that lies between two bounds.\<close>

definition between :: "rat \<Rightarrow> rat \<Rightarrow> pyfloat \<Rightarrow> bool" where
  "between lo hi x = (case x of Finite v \<Rightarrow> lo \<le> v \<and> v \<le> hi | _ \<Rightarrow> False)"

section \<open>The search order and its candidates\<close>

text \<open>
  Every pair the two nested \<^verbatim>\<open>for\<close> loops visit, as (index, teeth) of the chainring and
  (index, teeth) of the sprocket, in the order they visit it: chainring outer, sprocket inner.
\<close>

definition all_pairs :: "'a nusui_scheme \<Rightarrow> ((int \<times> int) \<times> (int \<times> int)) list" where
  "all_pairs self =
     List.product (py_enumerate (crankset_teeth self)) (py_enumerate (cassette_teeth self))"

definition non_crossing :: "'a nusui_scheme \<Rightarrow> (int \<times> int) \<times> (int \<times> int) \<Rightarrow> bool" where
  "non_crossing self p = (\<not> fst (is_chain_crossing self (fst (fst p)) (fst (snd p))))"

text \<open>
  The pairs a search chooses among: the non-crossing ones, or all of them when every pair
  is a crossing.
\<close>

definition candidates :: "'a nusui_scheme \<Rightarrow> ((int \<times> int) \<times> (int \<times> int)) list" where
  "candidates self =
     (if filter (non_crossing self) (all_pairs self) = [] then all_pairs self
      else filter (non_crossing self) (all_pairs self))"

text \<open>The value of \<^verbatim>\<open>diff\<close> the loop body computes for a pair, when it is a finite float.\<close>

definition diff_of :: "'a nusui_scheme \<Rightarrow> (int \<times> int) \<times> (int \<times> int) \<Rightarrow> rat" where
  "diff_of self p =
     (case gear_diff self (snd (fst p)) (snd (snd p)) of Inr (Finite d) \<Rightarrow> d | _ \<Rightarrow> 0)"

text \<open>
  The first element of a list whose key is minimal: what the specification says a search
  returns.
\<close>

fun argmin_first :: "('a \<Rightarrow> rat) \<Rightarrow> 'a list \<Rightarrow> 'a option" where
  "argmin_first key [] = None"
| "argmin_first key (x # xs) =
     (case argmin_first key xs of
        None \<Rightarrow> Some x
      | Some y \<Rightarrow> if key y < key x then Some y else Some x)"

definition valid_input :: "'a nusui_scheme \<Rightarrow> bool" where
  "valid_input self =
     (validate_gear_configuration self \<and> form_in_range self \<and> wheel_selected self)"

section \<open>Example configurations\<close>

text \<open>The road preset of the program with the wheel it selects, and the form's defaults.\<close>

definition road_bike :: nusui where
  "road_bike =
     \<lparr>crankset_teeth = [50, 34],
      cassette_teeth = [14, 16, 18, 20, 22, 24, 28],
      wheel_sizes = [''700x25C'' \<mapsto> Finite (lit 2105 1000)],
      wheel_size_var = ''700x25C'',
      wheel_combo_values = [''700x23C'', ''700x25C'', ''700x28C'', ''700C''],
      manual_config_button_enabled = False,
      target_speed_var = Finite 20,
      slope_var = Finite 0,
      cadencia_var = 90\<rparr>"

text \<open>The MTB preset: a triple crankset with seven sprockets.\<close>

definition mtb_bike :: nusui where
  "mtb_bike = road_bike\<lparr>crankset_teeth := [42, 34, 24],
                          cassette_teeth := [14, 16, 18, 20, 22, 24, 34]\<rparr>"

text \<open>A double crankset with the ten-sprocket cassette of the manual-entry dialog's example.\<close>

definition ten_speed_bike :: nusui where
  "ten_speed_bike = road_bike\<lparr>cassette_teeth := [11, 12, 14, 16, 18, 21, 24, 28, 32, 36]\<rparr>"

definition single_ring_bike :: nusui where
  "single_ring_bike = road_bike\<lparr>crankset_teeth := [34]\<rparr>"

text \<open>Two chainrings and one sprocket: both pairs are crossings.\<close>

definition single_sprocket_bike :: nusui where
  "single_sprocket_bike = road_bike\<lparr>cassette_teeth := [14]\<rparr>"

text \<open>Manual entry of \<^verbatim>\<open>34,34\<close> and \<^verbatim>\<open>14\<close>: two equal chainrings, one sprocket.\<close>

definition twin_ring_bike :: nusui where
  "twin_ring_bike = road_bike\<lparr>crankset_teeth := [34, 34], cassette_teeth := [14]\<rparr>"

text \<open>
  Manual entry of \<^verbatim>\<open>34,34\<close> with the cassette of the road preset, and a target speed of
  14 km/h on the slider.
\<close>

definition twin_ring_road_bike :: nusui where
  "twin_ring_road_bike = road_bike\<lparr>crankset_teeth := [34, 34], target_speed_var := Finite 14\<rparr>"

section \<open>Properties of the classifier\<close>

lemma round_10_times_035: "py_round (len_times 10 (lit 35 100)) = 4"
  by code_simp

lemma round_7_times_04: "py_round (len_times 7 (lit 4 10)) = 3"
  by code_simp

lemma round_7_times_015: "py_round (len_times 7 (lit 15 100)) = 1"
  by code_simp

text \<open>
  C6. With at most one chainring the classifier answers \<open>(False, None)\<close> for every pair of
  indices: a single-chainring configuration never reports a crossing.
\<close>

theorem single_chainring_never_crossing:
  "length (crankset_teeth self) \<le> 1 \<Longrightarrow>
   is_chain_crossing self chainring_idx sprocket_idx = (False, None)"
  by (simp add: is_chain_crossing_def)

theorem single_chainring_never_crossing_witness:
  "length (crankset_teeth single_ring_bike) \<le> 1 \<and>
   is_chain_crossing single_ring_bike 0 6 = (False, None)"
proof -
  have h: "length (crankset_teeth single_ring_bike) \<le> 1"
    by (simp add: single_ring_bike_def)
  show ?thesis
    using h single_chainring_never_crossing [OF h, of 0 6] by simp
qed

text \<open>
  C10. The classifier reads only the two list lengths and the two indices: two
  configurations with equally long chainring lists and equally long sprocket lists get the
  same answer (flag and reason) for every pair of indices, whatever their tooth counts.
\<close>

theorem crossing_depends_on_lengths_only:
  assumes "length (crankset_teeth a) = length (crankset_teeth b)"
    and "length (cassette_teeth a) = length (cassette_teeth b)"
  shows "is_chain_crossing a chainring_idx sprocket_idx =
         is_chain_crossing b chainring_idx sprocket_idx"
  unfolding is_chain_crossing_def assms ..

theorem crossing_depends_on_lengths_only_witness:
  "length (crankset_teeth mtb_bike) = length (crankset_teeth (mtb_bike\<lparr>crankset_teeth := [53, 39, 30]\<rparr>)) \<and>
   length (cassette_teeth mtb_bike) = length (cassette_teeth (mtb_bike\<lparr>crankset_teeth := [53, 39, 30]\<rparr>)) \<and>
   is_chain_crossing mtb_bike 1 6 = is_chain_crossing (mtb_bike\<lparr>crankset_teeth := [53, 39, 30]\<rparr>) 1 6"
proof -
  let ?b = "mtb_bike\<lparr>crankset_teeth := [53, 39, 30]\<rparr>"
  have h1: "length (crankset_teeth mtb_bike) = length (crankset_teeth ?b)"
    by (simp add: mtb_bike_def)
  have h2: "length (cassette_teeth mtb_bike) = length (cassette_teeth ?b)"
    by simp
  show ?thesis
    using h1 h2 crossing_depends_on_lengths_only [OF h1 h2, of 1 6] by simp
qed

text \<open>
  C2. With exactly two chainrings and \<open>extreme_count = max(2, round(num_sprockets * 0.35))\<close>,
  a pair is a crossing exactly when the chainring index is 0 and the sprocket index is at
  least \<open>num_sprockets - extreme_count\<close>, or the chainring index is 1 and the sprocket index
  is below \<open>extreme_count\<close>. With ten sprockets chainring 0 crosses exactly at the sprocket
  indices 6, 7, 8, 9 and chainring 1 exactly at 0, 1, 2, 3.
\<close>

theorem double_chainring_crossing:
  assumes "length (crankset_teeth self) = 2"
  shows "(fst (is_chain_crossing self chainring_idx sprocket_idx) \<longleftrightarrow>
           (let num_sprockets = int (length (cassette_teeth self));
                extreme_count = max 2 (py_round (len_times num_sprockets (lit 35 100)))
            in chainring_idx = 0 \<and> sprocket_idx \<ge> num_sprockets - extreme_count \<or>
               chainring_idx = 1 \<and> sprocket_idx < extreme_count)) \<and>
         (length (cassette_teeth self) = 10 \<longrightarrow> 0 \<le> j \<longrightarrow> j < 10 \<longrightarrow>
           (fst (is_chain_crossing self 0 j) \<longleftrightarrow> j \<in> {6, 7, 8, 9}) \<and>
           (fst (is_chain_crossing self 1 j) \<longleftrightarrow> j \<in> {0, 1, 2, 3}))"
proof (intro conjI impI)
  show "fst (is_chain_crossing self chainring_idx sprocket_idx) \<longleftrightarrow>
           (let num_sprockets = int (length (cassette_teeth self));
                extreme_count = max 2 (py_round (len_times num_sprockets (lit 35 100)))
            in chainring_idx = 0 \<and> sprocket_idx \<ge> num_sprockets - extreme_count \<or>
               chainring_idx = 1 \<and> sprocket_idx < extreme_count)"
    using assms by (simp add: is_chain_crossing_def Let_def)
next
  assume "length (cassette_teeth self) = 10" "0 \<le> j" "j < 10"
  then show "fst (is_chain_crossing self 0 j) \<longleftrightarrow> j \<in> {6, 7, 8, 9}"
    using assms by (simp add: is_chain_crossing_def Let_def round_10_times_035) arith
next
  assume "length (cassette_teeth self) = 10" "0 \<le> j" "j < 10"
  then show "fst (is_chain_crossing self 1 j) \<longleftrightarrow> j \<in> {0, 1, 2, 3}"
    using assms by (simp add: is_chain_crossing_def Let_def round_10_times_035) arith
qed

theorem double_chainring_crossing_witness:
  "length (crankset_teeth ten_speed_bike) = 2 \<and> length (cassette_teeth ten_speed_bike) = 10 \<and>
   fst (is_chain_crossing ten_speed_bike 0 6) \<and> \<not> fst (is_chain_crossing ten_speed_bike 1 6) \<and>
   \<not> fst (is_chain_crossing ten_speed_bike 0 3) \<and> fst (is_chain_crossing ten_speed_bike 1 3)"
proof -
  have h: "length (crankset_teeth ten_speed_bike) = 2"
    by (simp add: ten_speed_bike_def road_bike_def)
  have l: "length (cassette_teeth ten_speed_bike) = 10"
    by (simp add: ten_speed_bike_def)
  show ?thesis
    using h l double_chainring_crossing [OF h, of 0 6 6]
      double_chainring_crossing [OF h, of 0 6 3]
    by simp
qed

text \<open>
  C3. With exactly three chainrings the largest chainring (index 0) crosses exactly when the
  sprocket index is at least \<open>num_sprockets - max(2, round(num_sprockets * 0.4))\<close>, the
  smallest (index 2) exactly when it is below \<open>max(2, round(num_sprockets * 0.4))\<close>, and the
  middle one (index 1) exactly when it is at least
  \<open>num_sprockets - max(1, round(num_sprockets * 0.15))\<close> or below
  \<open>max(1, round(num_sprockets * 0.15))\<close>. With seven sprockets chainring 0 crosses at the
  indices 4, 5, 6 and the middle chainring at 0 and 6.
\<close>

theorem triple_chainring_crossing:
  assumes "length (crankset_teeth self) = 3"
  shows "(fst (is_chain_crossing self 0 sprocket_idx) \<longleftrightarrow>
           sprocket_idx \<ge> int (length (cassette_teeth self)) -
             max 2 (py_round (len_times (int (length (cassette_teeth self))) (lit 4 10)))) \<and>
         (fst (is_chain_crossing self 2 sprocket_idx) \<longleftrightarrow>
           sprocket_idx < max 2 (py_round (len_times (int (length (cassette_teeth self))) (lit 4 10)))) \<and>
         (fst (is_chain_crossing self 1 sprocket_idx) \<longleftrightarrow>
           sprocket_idx \<ge> int (length (cassette_teeth self)) -
             max 1 (py_round (len_times (int (length (cassette_teeth self))) (lit 15 100))) \<or>
           sprocket_idx < max 1 (py_round (len_times (int (length (cassette_teeth self))) (lit 15 100)))) \<and>
         (length (cassette_teeth self) = 7 \<longrightarrow> 0 \<le> j \<longrightarrow> j < 7 \<longrightarrow>
           (fst (is_chain_crossing self 0 j) \<longleftrightarrow> j \<in> {4, 5, 6}) \<and>
           (fst (is_chain_crossing self 1 j) \<longleftrightarrow> j \<in> {0, 6}))"
proof (intro conjI impI)
  show "fst (is_chain_crossing self 0 sprocket_idx) \<longleftrightarrow>
           sprocket_idx \<ge> int (length (cassette_teeth self)) -
             max 2 (py_round (len_times (int (length (cassette_teeth self))) (lit 4 10)))"
    using assms by (simp add: is_chain_crossing_def Let_def)
  show "fst (is_chain_crossing self 2 sprocket_idx) \<longleftrightarrow>
           sprocket_idx < max 2 (py_round (len_times (int (length (cassette_teeth self))) (lit 4 10)))"
    using assms by (simp add: is_chain_crossing_def Let_def)
  show "fst (is_chain_crossing self 1 sprocket_idx) \<longleftrightarrow>
           sprocket_idx \<ge> int (length (cassette_teeth self)) -
             max 1 (py_round (len_times (int (length (cassette_teeth self))) (lit 15 100))) \<or>
           sprocket_idx < max 1 (py_round (len_times (int (length (cassette_teeth self))) (lit 15 100)))"
    using assms by (simp add: is_chain_crossing_def Let_def)
next
  assume "length (cassette_teeth self) = 7" "0 \<le> j" "j < 7"
  then show "fst (is_chain_crossing self 0 j) \<longleftrightarrow> j \<in> {4, 5, 6}"
    using assms by (simp add: is_chain_crossing_def Let_def round_7_times_04) arith
next
  assume "length (cassette_teeth self) = 7" "0 \<le> j" "j < 7"
  then show "fst (is_chain_crossing self 1 j) \<longleftrightarrow> j \<in> {0, 6}"
    using assms by (simp add: is_chain_crossing_def Let_def round_7_times_015)
qed

theorem triple_chainring_crossing_witness:
  "length (crankset_teeth mtb_bike) = 3 \<and> length (cassette_teeth mtb_bike) = 7 \<and>
   \<not> fst (is_chain_crossing mtb_bike 0 3) \<and> fst (is_chain_crossing mtb_bike 0 4) \<and>
   fst (is_chain_crossing mtb_bike 1 0) \<and> \<not> fst (is_chain_crossing mtb_bike 1 4)"
proof -
  have h: "length (crankset_teeth mtb_bike) = 3"
    by (simp add: mtb_bike_def)
  have l: "length (cassette_teeth mtb_bike) = 7"
    by (simp add: mtb_bike_def)
  show ?thesis
    using h l triple_chainring_crossing [OF h, of 0 3] triple_chainring_crossing [OF h, of 0 4]
      triple_chainring_crossing [OF h, of 0 0]
    by (simp add: round_7_times_04 round_7_times_015)
qed

section \<open>Rounding never leaves the range on bounded values\<close>

lemma pow2_powi: "pow2 k = 2 powi k"
  by (simp add: pow2_def power_int_def power_inverse inverse_eq_divide power_one_over)

lemma pow2_pos: "0 < pow2 k"
  by (simp add: pow2_powi)

lemma pow2_add: "pow2 (a + b) = pow2 a * pow2 b"
  by (simp add: pow2_powi power_int_add)

lemma pow2_mono: "a \<le> b \<Longrightarrow> pow2 a \<le> pow2 b"
  by (simp add: pow2_powi power_int_increasing)

lemma pow2_nat: "pow2 (int n) = 2 ^ n"
  by (simp add: pow2_def)

lemma ilog2_le:
  assumes "0 < q"
  shows "pow2 (ilog2 q) \<le> q"
proof -
  obtain a b where ab: "quotient_of q = (a, b)" by (cases "quotient_of q")
  then have b: "0 < b" and q: "q = of_int a / of_int b"
    using quotient_of_denom_pos quotient_of_div by auto
  from assms q b have a: "0 < a"
    by (simp add: zero_less_divide_iff)
  let ?d = "bitlen a - bitlen b"
  show ?thesis
  proof (cases "pow2 ?d \<le> q")
    case True
    then show ?thesis by (simp add: ilog2_def ab)
  next
    case False
    have la: "(2::rat) powi (bitlen a - 1) \<le> of_int a"
    proof -
      have "2 ^ nat (bitlen a - 1) \<le> a" using bitlen_bounds [OF a] by simp
      then have "(of_int (2 ^ nat (bitlen a - 1)) :: rat) \<le> of_int a"
        by (simp only: of_int_le_iff)
      moreover have "0 \<le> bitlen a - 1" using a by (simp add: bitlen_alt_def)
      ultimately show ?thesis by (simp add: power_int_def)
    qed
    have lb: "of_int b \<le> (2::rat) powi (bitlen b)"
    proof -
      have "b < 2 ^ nat (bitlen b)" using bitlen_bounds [OF b] by simp
      then have "(of_int b :: rat) < of_int (2 ^ nat (bitlen b))"
        by (simp only: of_int_less_iff)
      moreover have "0 \<le> bitlen b" by (rule bitlen_nonneg)
      ultimately show ?thesis by (simp add: power_int_def)
    qed
    have "pow2 (?d - 1) = 2 powi (bitlen a - 1) / 2 powi (bitlen b)"
      by (simp add: pow2_powi power_int_diff)
    also have "\<dots> \<le> of_int a / of_int b"
      using la lb b a by (intro frac_le) auto
    finally have "pow2 (?d - 1) \<le> q" by (simp only: q)
    moreover have "ilog2 q = ?d - 1" using False by (simp add: ilog2_def ab)
    ultimately show ?thesis by (simp only:)
  qed
qed

lemma round_half_even_err: "\<bar>of_int (round_half_even x) - x\<bar> \<le> 1 / 2"
proof -
  have "of_int \<lfloor>x\<rfloor> \<le> x" "x < of_int \<lfloor>x\<rfloor> + 1" by linarith+
  then show ?thesis
    by (auto simp: round_half_even_def Let_def abs_le_iff)
qed

lemma round_to_double_err:
  assumes "q \<noteq> 0"
  shows "\<bar>round_to_double q - q\<bar> \<le> pow2 (max (ilog2 \<bar>q\<bar>) (- 1022) - 52) / 2"
proof -
  define ulp where "ulp = pow2 (max (ilog2 \<bar>q\<bar>) (- 1022) - 52)"
  define m :: rat where "m = of_int (round_half_even (\<bar>q\<bar> / ulp))"
  have u: "0 < ulp" unfolding ulp_def by (rule pow2_pos)
  have "\<bar>m - \<bar>q\<bar> / ulp\<bar> \<le> 1 / 2" unfolding m_def by (rule round_half_even_err)
  then have "\<bar>m - \<bar>q\<bar> / ulp\<bar> * ulp \<le> 1 / 2 * ulp"
    using u by (intro mult_right_mono) auto
  moreover have "\<bar>m - \<bar>q\<bar> / ulp\<bar> * ulp = \<bar>m * ulp - \<bar>q\<bar>\<bar>"
  proof -
    have "\<bar>m - \<bar>q\<bar> / ulp\<bar> * ulp = \<bar>m - \<bar>q\<bar> / ulp\<bar> * \<bar>ulp\<bar>"
      using u by simp
    also have "\<dots> = \<bar>(m - \<bar>q\<bar> / ulp) * ulp\<bar>"
      by (simp only: abs_mult)
    also have "(m - \<bar>q\<bar> / ulp) * ulp = m * ulp - \<bar>q\<bar>"
      using u by (simp add: field_simps)
    finally show ?thesis .
  qed
  ultimately have e: "\<bar>m * ulp - \<bar>q\<bar>\<bar> \<le> ulp / 2" by simp
  have r: "round_to_double q = sgn q * m * ulp"
    using assms by (simp add: round_to_double_def Let_def m_def ulp_def)
  have "sgn q * (m * ulp - \<bar>q\<bar>) = sgn q * m * ulp - sgn q * \<bar>q\<bar>"
    by (simp add: algebra_simps)
  also have "sgn q * \<bar>q\<bar> = q" by (rule sgn_mult_abs)
  finally have f: "sgn q * (m * ulp - \<bar>q\<bar>) = sgn q * m * ulp - q" .
  have "round_to_double q - q = sgn q * (m * ulp - \<bar>q\<bar>)"
    by (simp only: r f)
  then have "\<bar>round_to_double q - q\<bar> = \<bar>sgn q\<bar> * \<bar>m * ulp - \<bar>q\<bar>\<bar>"
    by (simp only: abs_mult)
  moreover have "\<bar>sgn q\<bar> = 1" using assms by (simp add: abs_sgn_eq)
  ultimately have "\<bar>round_to_double q - q\<bar> = \<bar>m * ulp - \<bar>q\<bar>\<bar>"
    by (simp only: mult_1)
  with e show ?thesis unfolding ulp_def by (simp only:)
qed

lemma ulp_le:
  assumes "q \<noteq> 0"
  shows "pow2 (max (ilog2 \<bar>q\<bar>) (- 1022) - 52) \<le> max \<bar>q\<bar> 1"
proof (cases "- 1022 \<le> ilog2 \<bar>q\<bar>")
  case True
  then have "pow2 (max (ilog2 \<bar>q\<bar>) (- 1022) - 52) = pow2 (ilog2 \<bar>q\<bar> - 52)"
    by (simp add: max_def)
  also have "\<dots> \<le> pow2 (ilog2 \<bar>q\<bar>)" by (rule pow2_mono) simp
  also have "\<dots> \<le> \<bar>q\<bar>" using assms by (intro ilog2_le) simp
  finally show ?thesis by simp
next
  case False
  then have "pow2 (max (ilog2 \<bar>q\<bar>) (- 1022) - 52) = pow2 (- 1074)"
    by (simp add: max_def)
  also have "\<dots> \<le> pow2 0" by (rule pow2_mono) simp
  also have "pow2 0 = 1" by (simp add: pow2_def)
  finally show ?thesis by (simp add: le_max_iff_disj)
qed

lemma round_to_double_bound: "\<bar>round_to_double q\<bar> \<le> \<bar>q\<bar> + max \<bar>q\<bar> 1 / 2"
proof (cases "q = 0")
  case True
  then show ?thesis by (simp add: round_to_double_def)
next
  case False
  from round_to_double_err [OF False] ulp_le [OF False]
  have "\<bar>round_to_double q - q\<bar> \<le> max \<bar>q\<bar> 1 / 2" by linarith
  then show ?thesis by linarith
qed

lemma fl_finite:
  assumes "\<bar>q\<bar> \<le> B" and "1 \<le> B" and "B \<le> pow2 1023"
  shows "fl q = Finite (round_to_double q) \<and> \<bar>round_to_double q\<bar> \<le> 2 * B"
proof -
  let ?v = "round_to_double q"
  have "\<bar>?v\<bar> \<le> \<bar>q\<bar> + max \<bar>q\<bar> 1 / 2" by (rule round_to_double_bound)
  also have "\<dots> \<le> B + B / 2" using assms by (simp add: max_def add_mono)
  finally have b: "\<bar>?v\<bar> \<le> 3 / 2 * B" by simp
  have p: "pow2 1024 = 2 * pow2 1023" using pow2_add [of 1 1023] by (simp add: pow2_def)
  with b assms have lt: "\<bar>?v\<bar> < pow2 1024" by linarith
  have n: "\<not> (?v \<noteq> 0 \<and> 1024 \<le> ilog2 \<bar>?v\<bar>)"
  proof
    assume h: "?v \<noteq> 0 \<and> 1024 \<le> ilog2 \<bar>?v\<bar>"
    then have "pow2 1024 \<le> pow2 (ilog2 \<bar>?v\<bar>)" by (intro pow2_mono) simp
    also have "\<dots> \<le> \<bar>?v\<bar>" using h by (intro ilog2_le) simp
    finally show False using lt by simp
  qed
  have "fl q = Finite ?v" unfolding fl_def Let_def by (simp only: n if_False)
  with b assms show ?thesis by auto
qed

lemma fin_leE: "fin_le B x \<Longrightarrow> (\<And>v. x = Finite v \<Longrightarrow> \<bar>v\<bar> \<le> B \<Longrightarrow> P) \<Longrightarrow> P"
  by (cases x) (auto simp: fin_le_def)

lemma fin_le_Finite [simp]: "fin_le B (Finite v) \<longleftrightarrow> \<bar>v\<bar> \<le> B"
  by (simp add: fin_le_def)

lemma fin_le_mono: "fin_le A x \<Longrightarrow> A \<le> B \<Longrightarrow> fin_le B x"
  by (cases x) (auto simp: fin_le_def)

lemma small_le_pow2: "B \<le> 2 ^ 100 \<Longrightarrow> B \<le> pow2 1023"
proof -
  assume "B \<le> 2 ^ 100"
  also have "(2::rat) ^ 100 = pow2 100" by (simp add: pow2_def)
  also have "\<dots> \<le> pow2 1023" by (rule pow2_mono) simp
  finally show ?thesis .
qed

lemma fl_fin_le:
  assumes "\<bar>q\<bar> \<le> B" "1 \<le> B" "B \<le> 2 ^ 100"
  shows "fin_le (2 * B) (fl q)"
  using fl_finite [OF assms(1,2) small_le_pow2 [OF assms(3)]] by simp

lemma fin_mul:
  assumes "fin_le A x" "fin_le B y" "1 \<le> A * B" "A * B \<le> 2 ^ 100"
  shows "fin_le (2 * (A * B)) (py_mul x y)"
proof -
  from assms(1) obtain a where x: "x = Finite a" and a: "\<bar>a\<bar> \<le> A" by (rule fin_leE)
  from assms(2) obtain b where y: "y = Finite b" and b: "\<bar>b\<bar> \<le> B" by (rule fin_leE)
  have "\<bar>a * b\<bar> \<le> A * B" unfolding abs_mult using a b by (intro mult_mono) auto
  from fl_fin_le [OF this assms(3,4)] show ?thesis by (simp add: x y)
qed

lemma fin_sub:
  assumes "fin_le A x" "fin_le B y" "1 \<le> A + B" "A + B \<le> 2 ^ 100"
  shows "fin_le (2 * (A + B)) (py_sub x y)"
proof -
  from assms(1) obtain a where x: "x = Finite a" and a: "\<bar>a\<bar> \<le> A" by (rule fin_leE)
  from assms(2) obtain b where y: "y = Finite b" and b: "\<bar>b\<bar> \<le> B" by (rule fin_leE)
  have "\<bar>a - b\<bar> \<le> A + B" using a b by linarith
  from fl_fin_le [OF this assms(3,4)] show ?thesis by (simp add: x y)
qed

lemma fin_div:
  assumes "fin_le A x" "1 \<le> \<bar>b\<bar>" "1 \<le> A" "A \<le> 2 ^ 100"
  shows "\<exists>z. py_div x (Finite b) = Inr z \<and> fin_le (2 * A) z"
proof -
  from assms(1) obtain a where x: "x = Finite a" and a: "\<bar>a\<bar> \<le> A" by (rule fin_leE)
  have "\<bar>a / b\<bar> = \<bar>a\<bar> / \<bar>b\<bar>" by simp
  also have "\<dots> \<le> \<bar>a\<bar> / 1" using assms(2) by (intro divide_left_mono) auto
  finally have "\<bar>a / b\<bar> \<le> A" using a by simp
  from fl_fin_le [OF this assms(3,4)] assms(2) show ?thesis by (auto simp: x)
qed

lemma fin_abs: "fin_le A x \<Longrightarrow> fin_le A (py_abs x)"
  by (cases x) (auto simp: fin_le_def)

lemma fin_float_of_int:
  assumes "\<bar>n\<bar> \<le> B" "1 \<le> B" "B \<le> 2 ^ 100"
  shows "\<exists>z. py_float_of_int n = Inr z \<and> fin_le (2 * of_int B) z"
proof -
  have 1: "\<bar>of_int n :: rat\<bar> \<le> of_int B" using assms(1) by (metis of_int_abs of_int_le_iff)
  have 2: "(1::rat) \<le> of_int B" using assms(2) by simp
  have 3: "(of_int B :: rat) \<le> 2 ^ 100" using assms(3) by (metis of_int_le_iff of_int_numeral of_int_power)
  from fl_finite [OF 1 2 small_le_pow2 [OF 3]]
  show ?thesis by (simp add: py_float_of_int_def)
qed

lemma fin_int_truediv:
  assumes "\<bar>a\<bar> \<le> B" "b \<noteq> 0" "1 \<le> B" "B \<le> 2 ^ 100"
  shows "py_int_truediv a b = Inr (Finite (round_to_double (of_int a / of_int b))) \<and>
         \<bar>round_to_double (of_int a / of_int b)\<bar> \<le> 2 * of_int B"
proof -
  have "1 \<le> \<bar>b\<bar>" using assms(2) by simp
  then have b1: "(1::rat) \<le> \<bar>of_int b\<bar>" by (metis of_int_abs of_int_1 of_int_le_iff)
  have "\<bar>of_int a / of_int b :: rat\<bar> = \<bar>of_int a\<bar> / \<bar>of_int b\<bar>" by simp
  also have "\<dots> \<le> \<bar>of_int a\<bar> / 1" using b1 by (intro divide_left_mono) auto
  also have "\<dots> \<le> of_int B" using assms(1) by (simp flip: of_int_abs)
  finally have 1: "\<bar>of_int a / of_int b :: rat\<bar> \<le> of_int B" .
  have 2: "(1::rat) \<le> of_int B" using assms(3) by simp
  have 3: "(of_int B :: rat) \<le> 2 ^ 100" using assms(4) by (metis of_int_le_iff of_int_numeral of_int_power)
  from fl_finite [OF 1 2 small_le_pow2 [OF 3]] assms(2)
  show ?thesis by (simp add: py_int_truediv_def)
qed


lemma lit_1_10_bound: "\<bar>lit 1 10\<bar> \<le> 1"
proof -
  have "\<bar>lit 1 10\<bar> \<le> \<bar>1 / 10 :: rat\<bar> + max \<bar>1 / 10 :: rat\<bar> 1 / 2"
    unfolding lit_def using round_to_double_bound [of "1 / 10"] by simp
  then show ?thesis by simp
qed

lemma gear_ratio_finite:
  assumes "11 \<le> c" "c \<le> 53" "11 \<le> s" "s \<le> 53"
  shows "\<exists>g. calculate_gear_ratio c s = Inr (Finite g) \<and> \<bar>g\<bar> \<le> 106"
proof -
  have "\<bar>c\<bar> \<le> 53" "s \<noteq> 0" using assms by auto
  from fin_int_truediv [OF this, of ] assms show ?thesis
    by (auto simp: calculate_gear_ratio_def)
qed

lemma speed_finite:
  assumes "\<bar>g\<bar> \<le> 106" and "form_in_range self" and "wheel_selected self"
  shows "\<exists>z. calculate_speed self (Some (Finite g)) (cadencia_var self) = Inr z \<and>
             fin_le 61056000 z"
proof -
  from assms(3) obtain w where w: "wheel_sizes self (wheel_size_var self) = Some (Finite w)"
    and wb: "\<bar>w\<bar> \<le> 3"
    by (auto simp: wheel_selected_def split: option.splits pyfloat.splits)
  from assms(2) have "\<bar>cadencia_var self\<bar> \<le> 100"
    by (auto simp: form_in_range_def MIN_CADENCE_def MAX_CADENCE_def)
  from fin_float_of_int [OF this] obtain c where c: "py_float_of_int (cadencia_var self) = Inr c"
    and cb: "fin_le 200 c" by auto
  have g: "fin_le 106 (Finite g)" and w': "fin_le 3 (Finite w)" using assms(1) wb by auto
  have 1: "fin_le 636 (py_mul (Finite g) (Finite w))"
    using fin_mul [OF g w'] by simp
  have 2: "fin_le 254400 (py_mul (py_mul (Finite g) (Finite w)) c)"
    using fin_mul [OF 1 cb] by simp
  have 3: "fin_le 30528000 (py_mul (py_mul (py_mul (Finite g) (Finite w)) c) (Finite 60))"
    using fin_mul [OF 2, of 60 "Finite 60"] by simp
  from fin_div [OF 3, of 1000] show ?thesis
    by (simp add: calculate_speed_def w c)
qed

lemma gear_diff_finite:
  assumes "11 \<le> c" "c \<le> 53" "11 \<le> s" "s \<le> 53"
    and "form_in_range self" and "wheel_selected self"
  shows "\<exists>d. gear_diff self c s = Inr (Finite d)"
proof -
  from gear_ratio_finite [OF assms(1-4)] obtain g where
    g: "calculate_gear_ratio c s = Inr (Finite g)" and gb: "\<bar>g\<bar> \<le> 106" by auto
  from speed_finite [OF gb assms(5,6)] obtain sp where
    sp: "calculate_speed self (Some (Finite g)) (cadencia_var self) = Inr sp"
    and spb: "fin_le 61056000 sp" by auto
  from assms(5) obtain t sl where t: "target_speed_var self = Finite t" and tb: "\<bar>t\<bar> \<le> 50"
    and sl: "slope_var self = Finite sl" and slb: "\<bar>sl\<bar> \<le> 20"
    by (auto simp: form_in_range_def split: pyfloat.splits)
  have "fin_le 20 (Finite sl)" using slb by simp
  from fin_div [OF this, of 100] obtain a where a: "py_div (Finite sl) (Finite 100) = Inr a"
    and ab: "fin_le 40 a" by auto
  have l: "fin_le 1 (Finite (lit 1 10))" using lit_1_10_bound by simp
  have 1: "fin_le 80 (py_mul a (Finite (lit 1 10)))"
    using fin_mul [OF ab l] by simp
  have 2: "fin_le 162 (py_sub (Finite 1) (py_mul a (Finite (lit 1 10))))"
    using fin_sub [OF _ 1, of 1 "Finite 1"] by simp
  have 3: "fin_le 19782144000 (py_mul sp (py_sub (Finite 1) (py_mul a (Finite (lit 1 10)))))"
    using fin_mul [OF spb 2] by simp
  have "fin_le 50 (Finite t)" using tb by simp
  from fin_sub [OF 3 this]
  have "fin_le 39564288100
          (py_sub (py_mul sp (py_sub (Finite 1) (py_mul a (Finite (lit 1 10))))) (Finite t))"
    by simp
  from fin_abs [OF this] obtain d where
    "py_abs (py_sub (py_mul sp (py_sub (Finite 1) (py_mul a (Finite (lit 1 10))))) (Finite t))
       = Finite d" by (rule fin_leE)
  then show ?thesis using a
    by (simp add: gear_diff_def g sp t sl handle_errors_def Let_def)
qed

lemma fl_zero: "fl 0 = Finite 0"
  by (simp add: fl_def round_to_double_def)

section \<open>Floats between bounds\<close>

text \<open>
  A float operation on operands of magnitude at most \<open>2^20\<close> is off the exact result by at
  most \<open>2^-33\<close>, so bounds on the operands give bounds on the result.
\<close>

lemma between_Finite [simp]: "between lo hi (Finite v) \<longleftrightarrow> lo \<le> v \<and> v \<le> hi"
  by (simp add: between_def)

lemma betweenE: "between lo hi x \<Longrightarrow> (\<And>v. x = Finite v \<Longrightarrow> lo \<le> v \<Longrightarrow> v \<le> hi \<Longrightarrow> P) \<Longrightarrow> P"
  by (cases x) (auto simp: between_def)

lemma ilog2_le_20:
  assumes "q \<noteq> 0" "\<bar>q\<bar> \<le> 2 ^ 20"
  shows "max (ilog2 \<bar>q\<bar>) (- 1022) \<le> 20"
proof -
  have "ilog2 \<bar>q\<bar> \<le> 20"
  proof (rule ccontr)
    assume "\<not> ilog2 \<bar>q\<bar> \<le> 20"
    then have "pow2 21 \<le> pow2 (ilog2 \<bar>q\<bar>)" by (intro pow2_mono) simp
    also have "\<dots> \<le> \<bar>q\<bar>" using assms(1) by (intro ilog2_le) simp
    finally have "pow2 21 \<le> 2 ^ 20" using assms(2) by simp
    then show False by (simp add: pow2_def)
  qed
  then show ?thesis by simp
qed

lemma fl_between:
  assumes "lo \<le> q" "q \<le> hi" "- (2 ^ 20) \<le> lo" "hi \<le> 2 ^ 20"
  shows "between (lo - 1 / 2 ^ 33) (hi + 1 / 2 ^ 33) (fl q)"
proof -
  have b: "\<bar>q\<bar> \<le> 2 ^ 20" using assms by (simp add: abs_le_iff)
  have f: "fl q = Finite (round_to_double q)"
    using fl_finite [OF b] small_le_pow2 [of "2 ^ 20"] by simp
  have e: "\<bar>round_to_double q - q\<bar> \<le> 1 / 2 ^ 33"
  proof (cases "q = 0")
    case True
    then show ?thesis by (simp add: round_to_double_def)
  next
    case False
    have "pow2 (max (ilog2 \<bar>q\<bar>) (- 1022) - 52) \<le> pow2 (- 32)"
      using ilog2_le_20 [OF False b] by (intro pow2_mono) simp
    then have "pow2 (max (ilog2 \<bar>q\<bar>) (- 1022) - 52) / 2 \<le> pow2 (- 32) / 2" by simp
    also have "pow2 (- 32) / 2 = 1 / 2 ^ 33" by (simp add: pow2_def)
    finally show ?thesis using round_to_double_err [OF False] by linarith
  qed
  from e assms(1,2) have "lo - 1 / 2 ^ 33 \<le> round_to_double q"
    "round_to_double q \<le> hi + 1 / 2 ^ 33" by linarith+
  then show ?thesis by (simp add: f)
qed

lemma between_mul:
  assumes "between l1 h1 x" "between l2 h2 y" "0 \<le> l1" "0 \<le> l2" "h1 * h2 \<le> 2 ^ 20"
    and "L \<le> l1 * l2 - 1 / 2 ^ 33" "h1 * h2 + 1 / 2 ^ 33 \<le> H"
  shows "between L H (py_mul x y)"
proof -
  from assms(1) obtain a where x: "x = Finite a" and a: "l1 \<le> a" "a \<le> h1" by (rule betweenE)
  from assms(2) obtain b where y: "y = Finite b" and b: "l2 \<le> b" "b \<le> h2" by (rule betweenE)
  have 1: "l1 * l2 \<le> a * b" using a b assms(3,4) by (intro mult_mono) auto
  have 2: "a * b \<le> h1 * h2" using a b assms(3,4) by (intro mult_mono) auto
  have 3: "- (2 ^ 20) \<le> l1 * l2" using assms(3,4)
    by (metis (no_types) mult_nonneg_nonneg neg_le_0_iff_le order_trans zero_le_numeral zero_le_power)
  from fl_between [OF 1 2 3 assms(5)] assms(6,7) show ?thesis
    by (auto simp: x y elim!: betweenE)
qed

lemma between_div:
  assumes "between l h x" "0 \<le> l" "0 < c" "h / c \<le> 2 ^ 20"
    and "L \<le> l / c - 1 / 2 ^ 33" "h / c + 1 / 2 ^ 33 \<le> H"
  shows "\<exists>z. py_div x (Finite c) = Inr z \<and> between L H z"
proof -
  from assms(1) obtain a where x: "x = Finite a" and a: "l \<le> a" "a \<le> h" by (rule betweenE)
  have 1: "l / c \<le> a / c" using a assms(3) by (simp add: divide_right_mono)
  have 2: "a / c \<le> h / c" using a assms(3) by (simp add: divide_right_mono)
  have 3: "- (2 ^ 20) \<le> l / c" using assms(2,3)
    by (metis (no_types) divide_nonneg_pos neg_le_0_iff_le order_trans zero_le_numeral zero_le_power)
  from fl_between [OF 1 2 3 assms(4)] assms(3,5,6) show ?thesis
    by (auto simp: x elim!: betweenE)
qed

lemma between_sub:
  assumes "between l1 h1 x" "between l2 h2 y" "- (2 ^ 20) \<le> l1 - h2" "h1 - l2 \<le> 2 ^ 20"
    and "L \<le> l1 - h2 - 1 / 2 ^ 33" "h1 - l2 + 1 / 2 ^ 33 \<le> H"
  shows "between L H (py_sub x y)"
proof -
  from assms(1) obtain a where x: "x = Finite a" and a: "l1 \<le> a" "a \<le> h1" by (rule betweenE)
  from assms(2) obtain b where y: "y = Finite b" and b: "l2 \<le> b" "b \<le> h2" by (rule betweenE)
  have 1: "l1 - h2 \<le> a - b" using a b by simp
  have 2: "a - b \<le> h1 - l2" using a b by simp
  from fl_between [OF 1 2 assms(3,4)] assms(5,6) show ?thesis
    by (auto simp: x y elim!: betweenE)
qed

lemma between_abs:
  assumes "between l h x" "- B \<le> l" "h \<le> B"
  shows "between 0 B (py_abs x)"
  using assms by (cases x) (auto simp: between_def)

lemma between_abs_pos:
  assumes "between l h x" "0 \<le> l"
  shows "between l h (py_abs x)"
  using assms by (cases x) (auto simp: between_def)

lemma between_int_truediv:
  assumes "0 \<le> a" "0 < b" "of_int a / of_int b \<le> (2 ^ 20 :: rat)"
    and "L \<le> of_int a / of_int b - 1 / 2 ^ 33" "of_int a / of_int b + 1 / 2 ^ 33 \<le> H"
  shows "\<exists>g. py_int_truediv a b = Inr g \<and> between L H g"
proof -
  have 3: "- (2 ^ 20) \<le> (of_int a / of_int b :: rat)" using assms(1,2)
    by (metis (no_types) divide_nonneg_pos neg_le_0_iff_le of_int_0_le_iff of_int_0_less_iff
        order_trans zero_le_numeral zero_le_power)
  from fl_between [OF order_refl order_refl 3 assms(3)] assms(2,4,5)
  show ?thesis
    by (cases "fl (of_int a / of_int b)") (auto simp: py_int_truediv_def between_def)
qed

lemma between_float_of_int:
  assumes "0 \<le> n" "of_int n \<le> (2 ^ 20 :: rat)"
    and "L \<le> of_int n - 1 / 2 ^ 33" "of_int n + 1 / 2 ^ 33 \<le> H"
  shows "\<exists>c. py_float_of_int n = Inr c \<and> between L H c"
proof -
  have 3: "- (2 ^ 20) \<le> (of_int n :: rat)" using assms(1)
    by (metis (no_types) neg_le_0_iff_le of_int_0_le_iff order_trans zero_le_numeral zero_le_power)
  from fl_between [OF order_refl order_refl 3 assms(2)] assms(3,4)
  show ?thesis
    by (cases "fl (of_int n)") (auto simp: py_float_of_int_def between_def)
qed

section \<open>Gear ratio\<close>

text \<open>
  C7. For a nonzero sprocket \<^verbatim>\<open>calculate_gear_ratio\<close> is the float division
  \<^verbatim>\<open>chainring / sprocket\<close>: the quotient rounded to the nearest float (Python's division
  raises OverflowError beyond the float range, which needs a chainring of more than
  \<open>2^1023\<close> teeth). It raises ValueError exactly when the sprocket is zero.
\<close>

theorem gear_ratio_is_quotient:
  "(sprocket \<noteq> 0 \<longrightarrow>
      calculate_gear_ratio chainring sprocket = py_int_truediv chainring sprocket) \<and>
   (sprocket \<noteq> 0 \<longrightarrow> \<bar>chainring\<bar> \<le> 2 ^ 1023 \<longrightarrow>
      calculate_gear_ratio chainring sprocket =
        Inr (Finite (round_to_double (of_int chainring / of_int sprocket)))) \<and>
   ((\<exists>msg. calculate_gear_ratio chainring sprocket = Inl (ValueError msg)) \<longleftrightarrow> sprocket = 0)"
proof (intro conjI impI)
  assume "sprocket \<noteq> 0"
  then show "calculate_gear_ratio chainring sprocket = py_int_truediv chainring sprocket"
    by (simp add: calculate_gear_ratio_def)
next
  assume s: "sprocket \<noteq> 0" and c: "\<bar>chainring\<bar> \<le> 2 ^ 1023"
  from s have "1 \<le> \<bar>sprocket\<bar>" by simp
  then have b1: "(1::rat) \<le> \<bar>of_int sprocket\<bar>" by (metis of_int_abs of_int_1 of_int_le_iff)
  have "\<bar>of_int chainring / of_int sprocket :: rat\<bar> = \<bar>of_int chainring\<bar> / \<bar>of_int sprocket\<bar>"
    by simp
  also have "\<dots> \<le> \<bar>of_int chainring\<bar> / 1" using b1 by (intro divide_left_mono) auto
  also have "\<dots> \<le> of_int (2 ^ 1023)" using c by (simp flip: of_int_abs)
  also have "(of_int (2 ^ 1023) :: rat) = pow2 1023" by (simp add: pow2_def)
  finally have 1: "\<bar>of_int chainring / of_int sprocket :: rat\<bar> \<le> pow2 1023" .
  have 2: "1 \<le> pow2 1023" using pow2_mono [of 0 1023] by (simp add: pow2_def)
  from fl_finite [OF 1 2] s
  show "calculate_gear_ratio chainring sprocket =
          Inr (Finite (round_to_double (of_int chainring / of_int sprocket)))"
    by (simp add: calculate_gear_ratio_def py_int_truediv_def)
next
  show "(\<exists>msg. calculate_gear_ratio chainring sprocket = Inl (ValueError msg)) \<longleftrightarrow> sprocket = 0"
    by (auto simp: calculate_gear_ratio_def py_int_truediv_def split: pyfloat.splits)
qed

theorem gear_ratio_is_quotient_witness:
  "(14::int) \<noteq> 0 \<and> \<bar>50::int\<bar> \<le> 2 ^ 1023 \<and>
   calculate_gear_ratio 50 14 = Inr (Finite (round_to_double (of_int 50 / of_int 14))) \<and>
   (\<exists>msg. calculate_gear_ratio 50 0 = Inl (ValueError msg))"
proof -
  have h1: "(14::int) \<noteq> 0" by simp
  have h2: "\<bar>50::int\<bar> \<le> 2 ^ 1023" by simp
  from gear_ratio_is_quotient [of 14 50] h1 h2
  have a: "calculate_gear_ratio 50 14 = Inr (Finite (round_to_double (of_int 50 / of_int 14)))"
    by blast
  from gear_ratio_is_quotient [of 0 50]
  have b: "\<exists>msg. calculate_gear_ratio 50 0 = Inl (ValueError msg)"
    by blast
  from h1 h2 a b show ?thesis by blast
qed

section \<open>Loops that keep the first minimum\<close>

lemma for_loop_append:
  "for_loop body (xs @ ys) s =
     (case for_loop body xs s of Inl e \<Rightarrow> Inl e | Inr s' \<Rightarrow> for_loop body ys s')"
  by (induction xs arbitrary: s) (auto split: sum.splits)

lemma for_loop_map:
  "for_loop body (map f xs) s = for_loop (\<lambda>st x. body st (f x)) xs s"
  by (induction xs arbitrary: s) (auto split: sum.splits)

lemma for_loop_product:
  "for_loop (\<lambda>st x. for_loop (f x) ys st) xs s =
   for_loop (\<lambda>st p. f (fst p) st (snd p)) (List.product xs ys) s"
proof (induction xs arbitrary: s)
  case Nil
  then show ?case by simp
next
  case (Cons x xs)
  show ?case
    by (simp add: for_loop_append for_loop_map Cons.IH split: sum.splits)
qed

lemma for_loop_skip:
  assumes "\<And>x st. x \<in> set xs \<Longrightarrow> \<not> P x \<Longrightarrow> body st x = Inr st"
  shows "for_loop body xs s = for_loop body (filter P xs) s"
  using assms by (induction xs arbitrary: s) (auto split: sum.splits)

lemma for_loop_cong:
  assumes "\<And>x st. x \<in> set xs \<Longrightarrow> body st x = body' st x"
  shows "for_loop body xs s = for_loop body' xs s"
  using assms by (induction xs arbitrary: s) (auto split: sum.splits)

lemma py_lt_Finite_trans: "a \<le> b \<Longrightarrow> py_lt (Finite b) m \<Longrightarrow> py_lt (Finite a) m"
  by (cases m) auto

lemma for_loop_argmin:
  assumes "\<And>x st. x \<in> set xs \<Longrightarrow>
             body st x = Inr (if py_lt (Finite (key x)) (md st) then upd x else st)"
    and "\<And>x. md (upd x) = Finite (key x)"
  shows "for_loop body xs st =
           Inr (case argmin_first key xs of
                  None \<Rightarrow> st
                | Some y \<Rightarrow> if py_lt (Finite (key y)) (md st) then upd y else st)"
  using assms(1)
proof (induction xs arbitrary: st)
  case Nil
  then show ?case by simp
next
  case (Cons x xs)
  let ?st1 = "if py_lt (Finite (key x)) (md st) then upd x else st"
  have b: "body st x = Inr ?st1" by (rule Cons.prems) simp
  have ih: "for_loop body xs ?st1 =
           Inr (case argmin_first key xs of
                  None \<Rightarrow> ?st1
                | Some y \<Rightarrow> if py_lt (Finite (key y)) (md ?st1) then upd y else ?st1)"
    by (rule Cons.IH) (simp add: Cons.prems)
  show ?case
  proof (cases "argmin_first key xs")
    case None
    then show ?thesis using b ih by simp
  next
    case (Some y)
    show ?thesis
    proof (cases "py_lt (Finite (key x)) (md st)")
      case True
      then show ?thesis using b ih Some assms(2) py_lt_Finite_trans [of "key y" "key x" "md st"]
        by auto
    next
      case False
      have "\<not> key y < key x \<Longrightarrow> \<not> py_lt (Finite (key y)) (md st)"
        using False py_lt_Finite_trans [of "key x" "key y" "md st"] by auto
      then show ?thesis using False b ih Some by auto
    qed
  qed
qed

lemma argmin_first_None: "argmin_first key xs = None \<longleftrightarrow> xs = []"
  by (cases xs) (auto split: option.splits)

lemma argmin_first_char:
  assumes "argmin_first key xs = Some y"
  shows "\<exists>k<length xs. xs ! k = y \<and> (\<forall>m<length xs. key y \<le> key (xs ! m)) \<and>
           (\<forall>m<k. key y < key (xs ! m))"
  using assms
proof (induction xs arbitrary: y)
  case Nil
  then show ?case by simp
next
  case (Cons x xs)
  show ?case
  proof (cases "argmin_first key xs")
    case None
    then have "xs = []" by (simp add: argmin_first_None)
    with Cons.prems None show ?thesis by auto
  next
    case (Some z)
    from Cons.IH [OF Some] obtain k where k: "k < length xs" "xs ! k = z"
      "\<forall>m<length xs. key z \<le> key (xs ! m)" "\<forall>m<k. key z < key (xs ! m)" by auto
    show ?thesis
    proof (cases "key z < key x")
      case True
      with Cons.prems Some have y: "y = z" by simp
      have "Suc k < length (x # xs)" using k by simp
      moreover have "(x # xs) ! Suc k = y" using k y by simp
      moreover have "\<forall>m<length (x # xs). key y \<le> key ((x # xs) ! m)"
        using k True y by (auto simp: nth_Cons split: nat.splits)
      moreover have "\<forall>m<Suc k. key y < key ((x # xs) ! m)"
        using k True y by (auto simp: nth_Cons split: nat.splits)
      ultimately show ?thesis by blast
    next
      case False
      with Cons.prems Some have y: "y = x" by simp
      have "\<forall>m<length (x # xs). key y \<le> key ((x # xs) ! m)"
        using k False y by (fastforce simp: nth_Cons split: nat.splits)
      then show ?thesis using y by (intro exI [of _ 0]) simp
    qed
  qed
qed

section \<open>What the two searches compute\<close>

lemma set_py_enumerate: "set (py_enumerate xs) = {(int i, xs ! i) | i. i < length xs}"
proof -
  have "\<exists>ia. int i = map int [0..<length xs] ! ia \<and> xs ! i = xs ! ia \<and> ia < length xs"
    if "i < length xs" for i
    using that by (intro exI [of _ i]) simp
  then show ?thesis by (auto simp: py_enumerate_def set_zip)
qed

lemma in_all_pairs:
  "p \<in> set (all_pairs self) \<longleftrightarrow>
     (\<exists>i j. i < length (crankset_teeth self) \<and> j < length (cassette_teeth self) \<and>
            p = ((int i, crankset_teeth self ! i), (int j, cassette_teeth self ! j)))"
  by (cases p) (auto simp: all_pairs_def set_py_enumerate)

lemma all_pairs_teeth:
  assumes "valid_input self" "p \<in> set (all_pairs self)"
  shows "snd (fst p) \<in> set (crankset_teeth self)" "snd (snd p) \<in> set (cassette_teeth self)"
    "11 \<le> snd (fst p)" "snd (fst p) \<le> 53" "11 \<le> snd (snd p)" "snd (snd p) \<le> 53"
proof -
  from assms(2) obtain i j where i: "i < length (crankset_teeth self)"
    and j: "j < length (cassette_teeth self)"
    and p: "p = ((int i, crankset_teeth self ! i), (int j, cassette_teeth self ! j))"
    by (auto simp: in_all_pairs)
  show c: "snd (fst p) \<in> set (crankset_teeth self)" using i p by simp
  show s: "snd (snd p) \<in> set (cassette_teeth self)" using j p by simp
  from assms(1) have "\<forall>t\<in>set (crankset_teeth self) \<union> set (cassette_teeth self). 11 \<le> t \<and> t \<le> 53"
    by (auto simp: valid_input_def validate_gear_configuration_def MIN_TEETH_def MAX_TEETH_def
        list_all_iff split: if_splits)
  with c s show "11 \<le> snd (fst p)" "snd (fst p) \<le> 53" "11 \<le> snd (snd p)" "snd (snd p) \<le> 53"
    by auto
qed

lemma all_pairs_nonempty:
  assumes "valid_input self"
  shows "all_pairs self \<noteq> []"
proof -
  from assms have "0 < length (crankset_teeth self)" "0 < length (cassette_teeth self)"
    by (auto simp: valid_input_def validate_gear_configuration_def split: if_splits)
  then have "((int 0, crankset_teeth self ! 0), (int 0, cassette_teeth self ! 0))
               \<in> set (all_pairs self)"
    unfolding in_all_pairs by blast
  then show ?thesis by auto
qed

lemma gear_diff_eq:
  assumes "valid_input self" "p \<in> set (all_pairs self)"
  shows "gear_diff self (snd (fst p)) (snd (snd p)) = Inr (Finite (diff_of self p))"
proof -
  from assms(1) have "form_in_range self" "wheel_selected self" by (auto simp: valid_input_def)
  from gear_diff_finite [OF all_pairs_teeth(3-6) [OF assms] this]
  show ?thesis by (auto simp: diff_of_def)
qed

lemma first_pass_eq:
  assumes "valid_input self"
  shows "first_pass self =
           Inr (case argmin_first (diff_of self) (filter (non_crossing self) (all_pairs self)) of
                  None \<Rightarrow> (PInf, None, None)
                | Some p \<Rightarrow> (Finite (diff_of self p), Some (snd (fst p)), Some (snd (snd p))))"
proof -
  let ?body = "\<lambda>st p. first_pass_body self (fst p) st (snd p)"
  let ?upd = "\<lambda>p. (Finite (diff_of self p), Some (snd (fst p)), Some (snd (snd p)))"
  have 1: "first_pass self = for_loop ?body (all_pairs self) (PInf, None, None)"
    by (simp add: first_pass_def all_pairs_def for_loop_product)
  have 2: "for_loop ?body (all_pairs self) (PInf, None, None) =
           for_loop ?body (filter (non_crossing self) (all_pairs self)) (PInf, None, None)"
    by (rule for_loop_skip)
      (auto simp: first_pass_body_def non_crossing_def split: prod.splits)
  have 3: "for_loop ?body (filter (non_crossing self) (all_pairs self)) (PInf, None, None) =
           Inr (case argmin_first (diff_of self) (filter (non_crossing self) (all_pairs self)) of
                  None \<Rightarrow> (PInf, None, None)
                | Some y \<Rightarrow> if py_lt (Finite (diff_of self y)) (fst (PInf, None :: int option, None :: int option))
                            then ?upd y else (PInf, None, None))"
  proof (rule for_loop_argmin)
    fix x and st :: "pyfloat \<times> int option \<times> int option"
    assume "x \<in> set (filter (non_crossing self) (all_pairs self))"
    then have x: "x \<in> set (all_pairs self)" and nc: "non_crossing self x" by auto
    from gear_diff_eq [OF assms x] nc
    show "?body st x = Inr (if py_lt (Finite (diff_of self x)) (fst st) then ?upd x else st)"
      by (auto simp: first_pass_body_def non_crossing_def split: prod.splits)
  next
    fix x show "fst (?upd x) = Finite (diff_of self x)" by simp
  qed
  show ?thesis unfolding 1 2 3 by (simp split: option.splits)
qed

lemma second_pass_eq:
  assumes "valid_input self"
  shows "second_pass self bc bs =
           Inr (case argmin_first (diff_of self) (all_pairs self) of
                  None \<Rightarrow> (PInf, bc, bs, None, None)
                | Some p \<Rightarrow> (Finite (diff_of self p), Some (snd (fst p)), Some (snd (snd p)),
                             Some (fst (fst p)), Some (fst (snd p))))"
proof -
  let ?body = "\<lambda>st p. second_pass_body self (fst p) st (snd p)"
  let ?upd = "\<lambda>p. (Finite (diff_of self p), Some (snd (fst p)), Some (snd (snd p)),
                             Some (fst (fst p)), Some (fst (snd p)))"
  let ?st0 = "(PInf, bc, bs, None :: int option, None :: int option)"
  have 1: "second_pass self bc bs = for_loop ?body (all_pairs self) ?st0"
    by (simp add: second_pass_def all_pairs_def for_loop_product)
  have 3: "for_loop ?body (all_pairs self) ?st0 =
           Inr (case argmin_first (diff_of self) (all_pairs self) of
                  None \<Rightarrow> ?st0
                | Some y \<Rightarrow> if py_lt (Finite (diff_of self y)) (fst ?st0) then ?upd y else ?st0)"
  proof (rule for_loop_argmin)
    fix x and st :: "pyfloat \<times> int option \<times> int option \<times> int option \<times> int option"
    assume x: "x \<in> set (all_pairs self)"
    from gear_diff_eq [OF assms x]
    show "?body st x = Inr (if py_lt (Finite (diff_of self x)) (fst st) then ?upd x else st)"
      by (auto simp: second_pass_body_def split: prod.splits)
  next
    fix x show "fst (?upd x) = Finite (diff_of self x)" by simp
  qed
  show ?thesis unfolding 1 3 by (simp split: option.splits)
qed

lemma index_plus_one_mem: "x \<in> set xs \<Longrightarrow> \<exists>k. index_plus_one xs x = Inr k"
  by (induction xs) auto

lemma show_recommendation_ok:
  assumes "valid_input self" "p \<in> set (all_pairs self)"
  shows "\<exists>r. show_recommendation self (Some (snd (fst p))) (Some (snd (snd p))) cr = Inr (Some r) \<and>
             rec_chainring r = snd (fst p) \<and> rec_sprocket r = snd (snd p) \<and> rec_crossing r = cr"
proof -
  note t = all_pairs_teeth [OF assms]
  from assms(1) have f: "form_in_range self" and w: "wheel_selected self"
    by (auto simp: valid_input_def)
  from gear_ratio_finite [OF t(3-6)] obtain g where
    g: "calculate_gear_ratio (snd (fst p)) (snd (snd p)) = Inr (Finite g)" and gb: "\<bar>g\<bar> \<le> 106"
    by auto
  from speed_finite [OF gb f w] obtain sp where
    sp: "calculate_speed self (Some (Finite g)) (cadencia_var self) = Inr sp" by auto
  from w obtain wc where wc: "wheel_sizes self (wheel_size_var self) = Some wc"
    by (auto simp: wheel_selected_def split: option.splits)
  from index_plus_one_mem [OF t(1)] obtain k1 where
    k1: "index_plus_one (crankset_teeth self) (snd (fst p)) = Inr k1" by auto
  from index_plus_one_mem [OF t(2)] obtain k2 where
    k2: "index_plus_one (cassette_teeth self) (snd (snd p)) = Inr k2" by auto
  have "snd (fst p) \<noteq> 0" "snd (snd p) \<noteq> 0" using t by auto
  then show ?thesis
    by (simp add: show_recommendation_def g sp wc k1 k2 handle_errors_def Let_def)
qed

lemma argmin_first_mem: "argmin_first key xs = Some y \<Longrightarrow> y \<in> set xs"
  using argmin_first_char [of key xs y] by auto

lemma recommended_gear_result:
  assumes "valid_input self"
  shows "\<exists>p r. argmin_first (diff_of self) (candidates self) = Some p \<and>
           p \<in> set (all_pairs self) \<and>
           calculate_recommended_gear self = Inr (Some r) \<and>
           rec_chainring r = snd (fst p) \<and> rec_sprocket r = snd (snd p) \<and>
           rec_crossing r =
             (filter (non_crossing self) (all_pairs self) = [] \<and> \<not> non_crossing self p)"
proof (cases "filter (non_crossing self) (all_pairs self) = []")
  case True
  then have c: "candidates self = all_pairs self" by (simp add: candidates_def)
  from all_pairs_nonempty [OF assms] obtain p where
    p: "argmin_first (diff_of self) (all_pairs self) = Some p"
    by (cases "argmin_first (diff_of self) (all_pairs self)") (auto simp: argmin_first_None)
  then have m: "p \<in> set (all_pairs self)" by (rule argmin_first_mem)
  from show_recommendation_ok [OF assms m, of "fst (is_chain_crossing self (fst (fst p)) (fst (snd p)))"]
  obtain r where r: "show_recommendation self (Some (snd (fst p))) (Some (snd (snd p)))
        (fst (is_chain_crossing self (fst (fst p)) (fst (snd p)))) = Inr (Some r)"
    "rec_chainring r = snd (fst p)" "rec_sprocket r = snd (snd p)"
    "rec_crossing r = fst (is_chain_crossing self (fst (fst p)) (fst (snd p)))" by auto
  have "calculate_recommended_gear self = Inr (Some r)"
    by (simp add: calculate_recommended_gear_def first_pass_eq [OF assms] True
        second_pass_eq [OF assms] p r(1))
  with p m r c True show ?thesis by (auto simp: non_crossing_def)
next
  case False
  then have c: "candidates self = filter (non_crossing self) (all_pairs self)"
    by (simp add: candidates_def)
  from False obtain p where
    p: "argmin_first (diff_of self) (filter (non_crossing self) (all_pairs self)) = Some p"
    by (cases "argmin_first (diff_of self) (filter (non_crossing self) (all_pairs self))")
      (auto simp: argmin_first_None)
  then have "p \<in> set (filter (non_crossing self) (all_pairs self))" by (rule argmin_first_mem)
  then have m: "p \<in> set (all_pairs self)" by simp
  from show_recommendation_ok [OF assms m, of False]
  obtain r where r: "show_recommendation self (Some (snd (fst p))) (Some (snd (snd p))) False
       = Inr (Some r)"
    "rec_chainring r = snd (fst p)" "rec_sprocket r = snd (snd p)" "rec_crossing r = False"
    by auto
  have "calculate_recommended_gear self = Inr (Some r)"
    by (simp add: calculate_recommended_gear_def first_pass_eq [OF assms] p r(1))
  with p m r c False show ?thesis by auto
qed

lemma lit_2105_1000: "lit 2105 1000 = 4740038607807447 / 2251799813685248"
  by code_simp

lemma round_7_times_035: "py_round (len_times 7 (lit 35 100)) = 2"
  by code_simp

lemma round_1_times_035: "py_round (len_times 1 (lit 35 100)) = 0"
  by code_simp

lemma road_bike_valid:
  "validate_gear_configuration road_bike" "form_in_range road_bike" "wheel_selected road_bike"
  by (simp_all add: road_bike_def validate_gear_configuration_def form_in_range_def
      wheel_selected_def lit_2105_1000 MIN_TEETH_def MAX_TEETH_def MIN_CADENCE_def MAX_CADENCE_def)

lemma single_sprocket_bike_valid:
  "validate_gear_configuration single_sprocket_bike" "form_in_range single_sprocket_bike"
  "wheel_selected single_sprocket_bike"
  by (simp_all add: single_sprocket_bike_def road_bike_def validate_gear_configuration_def
      form_in_range_def wheel_selected_def lit_2105_1000 MIN_TEETH_def MAX_TEETH_def
      MIN_CADENCE_def MAX_CADENCE_def)

lemma road_bike_first_pair: "\<not> fst (is_chain_crossing road_bike (int 0) (int 0))"
  by (simp add: is_chain_crossing_def road_bike_def round_7_times_035)

lemma single_sprocket_all_cross:
  "filter (non_crossing single_sprocket_bike) (all_pairs single_sprocket_bike) = []"
  by (simp add: all_pairs_def py_enumerate_def single_sprocket_bike_def road_bike_def
      non_crossing_def is_chain_crossing_def round_1_times_035)

lemma show_recommendation_advice:
  assumes "show_recommendation self bc bs cr = Inr (Some r)"
  shows "rec_advice r =
           (if py_lt (Finite 8) (slope_var self) then SteepClimb
            else if py_lt (Finite 0) (slope_var self) then MildClimb
            else if py_lt (slope_var self) (Finite (- 5)) then Descent
            else Flat)"
  using assms
  by (auto simp: show_recommendation_def Let_def split: option.splits sum.splits if_splits)

section \<open>The position the panel shows\<close>

text \<open>
  The panel takes the two positions from \<^verbatim>\<open>.index()\<close> of the tooth counts it shows.
\<close>

lemma recommended_gear_index:
  assumes "calculate_recommended_gear self = Inr (Some r)"
  shows "index_plus_one (crankset_teeth self) (rec_chainring r) = Inr (rec_chainring_idx r) \<and>
         index_plus_one (cassette_teeth self) (rec_sprocket r) = Inr (rec_sprocket_idx r)"
proof -
  have s: "index_plus_one (crankset_teeth self) (rec_chainring r) = Inr (rec_chainring_idx r) \<and>
         index_plus_one (cassette_teeth self) (rec_sprocket r) = Inr (rec_sprocket_idx r)"
    if "show_recommendation self bc bs cr = Inr (Some r)" for bc bs cr
    using that
    by (auto simp: show_recommendation_def Let_def split: option.splits sum.splits if_splits)
  from assms show ?thesis
    by (auto simp: calculate_recommended_gear_def s split: sum.splits prod.splits option.splits if_splits)
qed

lemma index_plus_one_distinct:
  "distinct xs \<Longrightarrow> i < length xs \<Longrightarrow> index_plus_one xs (xs ! i) = Inr (int i + 1)"
proof (induction xs arbitrary: i)
  case Nil
  then show ?case by simp
next
  case (Cons y ys)
  show ?case
  proof (cases i)
    case 0
    then show ?thesis by simp
  next
    case (Suc k)
    with Cons.prems have k: "k < length ys" and d: "distinct ys" and n: "y \<notin> set ys" by auto
    from k n have "y \<noteq> ys ! k" by (metis nth_mem)
    with Cons.IH [OF d k] Suc show ?thesis by simp
  qed
qed

section \<open>The differences of a twin-chainring configuration\<close>

text \<open>
  With chainrings 34, 34, the road cassette, the 700x25C wheel, cadence 90, no slope and a
  target of 14 km/h, the adjusted speed is about 13.8 km/h on the sprocket of 28 teeth and at
  least 15.8 km/h on every other sprocket.
\<close>

lemma twin_ring_road_bike_valid: "valid_input twin_ring_road_bike"
  by (simp add: valid_input_def twin_ring_road_bike_def road_bike_def validate_gear_configuration_def
      form_in_range_def wheel_selected_def lit_2105_1000 MIN_TEETH_def MAX_TEETH_def
      MIN_CADENCE_def MAX_CADENCE_def)


lemma twin_diff_small_sprocket:
  assumes g: "calculate_gear_ratio c s = Inr g" and b: "between (141 / 100) (243 / 100) g"
  shows "\<exists>d. gear_diff twin_ring_road_bike c s = Inr (Finite d) \<and> 1 < d"
proof -
  let ?w = "Finite (lit 2105 1000)"
  have w: "between (21 / 10) (211 / 100) ?w" by (simp add: lit_2105_1000)
  have ws: "wheel_sizes twin_ring_road_bike (wheel_size_var twin_ring_road_bike) = Some ?w"
    and cad: "cadencia_var twin_ring_road_bike = 90"
    and sl: "slope_var twin_ring_road_bike = Finite 0"
    and tg: "target_speed_var twin_ring_road_bike = Finite 14"
    by (simp_all add: twin_ring_road_bike_def road_bike_def)
  from between_float_of_int [of 90 "899 / 10" "901 / 10"] obtain c90 where
    c: "py_float_of_int 90 = Inr c90" and cb: "between (899 / 10) (901 / 10) c90" by auto
  have t1: "between (296 / 100) (513 / 100) (py_mul g ?w)"
    by (rule between_mul [OF b w]) simp_all
  have t2: "between (266) (463) (py_mul (py_mul g ?w) c90)"
    by (rule between_mul [OF t1 cb]) simp_all
  have t3: "between (15959) (27781) (py_mul (py_mul (py_mul g ?w) c90) (Finite 60))"
    by (rule between_mul [OF t2, of 60 60]) simp_all
  from between_div [OF t3, of 1000 "159 / 10" "278 / 10"] obtain sp where
    sp: "py_div (py_mul (py_mul (py_mul g ?w) c90) (Finite 60)) (Finite 1000) = Inr sp"
    and spb: "between (159 / 10) (278 / 10) sp" by auto
  have one: "between (999 / 1000) (1001 / 1000) (py_sub (Finite 1) (Finite 0))"
    by (rule between_sub [of 1 1 _ 0 0]) simp_all
  have adj: "between (158 / 10) (279 / 10) (py_mul sp (py_sub (Finite 1) (Finite 0)))"
    by (rule between_mul [OF spb one]) simp_all
  have d0: "between (17 / 10) (14)
      (py_sub (py_mul sp (py_sub (Finite 1) (Finite 0))) (Finite 14))"
    by (rule between_sub [OF adj, of 14 14]) simp_all
  have "between (17 / 10) 14
      (py_abs (py_sub (py_mul sp (py_sub (Finite 1) (Finite 0))) (Finite 14)))"
    by (rule between_abs_pos [OF d0]) simp_all
  then obtain d where
    "py_abs (py_sub (py_mul sp (py_sub (Finite 1) (Finite 0))) (Finite 14)) = Finite d"
    and "1 < d" by (auto elim!: betweenE)
  then show ?thesis
    by (simp add: gear_diff_def g c sp ws cad sl tg calculate_speed_def handle_errors_def fl_zero)
qed

lemma twin_diff_largest_sprocket:
  assumes g: "calculate_gear_ratio c s = Inr g" and b: "between (1214 / 1000) (1215 / 1000) g"
  shows "\<exists>d. gear_diff twin_ring_road_bike c s = Inr (Finite d) \<and> d < 1"
proof -
  let ?w = "Finite (lit 2105 1000)"
  have w: "between (21 / 10) (211 / 100) ?w" by (simp add: lit_2105_1000)
  have ws: "wheel_sizes twin_ring_road_bike (wheel_size_var twin_ring_road_bike) = Some ?w"
    and cad: "cadencia_var twin_ring_road_bike = 90"
    and sl: "slope_var twin_ring_road_bike = Finite 0"
    and tg: "target_speed_var twin_ring_road_bike = Finite 14"
    by (simp_all add: twin_ring_road_bike_def road_bike_def)
  from between_float_of_int [of 90 "899 / 10" "901 / 10"] obtain c90 where
    c: "py_float_of_int 90 = Inr c90" and cb: "between (899 / 10) (901 / 10) c90" by auto
  have t1: "between (2549 / 1000) (2564 / 1000) (py_mul g ?w)"
    by (rule between_mul [OF b w]) simp_all
  have t2: "between (2291 / 10) (2311 / 10) (py_mul (py_mul g ?w) c90)"
    by (rule between_mul [OF t1 cb]) simp_all
  have t3: "between (13745) (13867) (py_mul (py_mul (py_mul g ?w) c90) (Finite 60))"
    by (rule between_mul [OF t2, of 60 60]) simp_all
  from between_div [OF t3, of 1000 "137 / 10" "139 / 10"] obtain sp where
    sp: "py_div (py_mul (py_mul (py_mul g ?w) c90) (Finite 60)) (Finite 1000) = Inr sp"
    and spb: "between (137 / 10) (139 / 10) sp" by auto
  have one: "between (999 / 1000) (1001 / 1000) (py_sub (Finite 1) (Finite 0))"
    by (rule between_sub [of 1 1 _ 0 0]) simp_all
  have adj: "between (136 / 10) (14) (py_mul sp (py_sub (Finite 1) (Finite 0)))"
    by (rule between_mul [OF spb one]) simp_all
  have d0: "between (- (1 / 2)) (1 / 2)
      (py_sub (py_mul sp (py_sub (Finite 1) (Finite 0))) (Finite 14))"
    by (rule between_sub [OF adj, of 14 14]) simp_all
  have "between 0 (1 / 2)
      (py_abs (py_sub (py_mul sp (py_sub (Finite 1) (Finite 0))) (Finite 14)))"
    by (rule between_abs [OF d0]) simp_all
  then obtain d where
    "py_abs (py_sub (py_mul sp (py_sub (Finite 1) (Finite 0))) (Finite 14)) = Finite d"
    and "d < 1" by (auto elim!: betweenE)
  then show ?thesis
    by (simp add: gear_diff_def g c sp ws cad sl tg calculate_speed_def handle_errors_def fl_zero)
qed

lemma twin_ring_road_bike_lists:
  "crankset_teeth twin_ring_road_bike = [34, 34]"
  "cassette_teeth twin_ring_road_bike = [14, 16, 18, 20, 22, 24, 28]"
  by (simp_all add: twin_ring_road_bike_def road_bike_def)

lemma twin_ratio_between:
  assumes "L \<le> 34 / of_int s - 1 / 2 ^ 33" "34 / of_int s + 1 / 2 ^ 33 \<le> H" "11 \<le> s"
  shows "\<exists>g. calculate_gear_ratio 34 s = Inr g \<and> between L H g"
proof -
  have "34 / of_int s \<le> (34 :: rat)" using assms(3) by (simp add: pos_divide_le_eq)
  then have "of_int 34 / of_int s \<le> (2 ^ 20 :: rat)" by simp
  from between_int_truediv [of 34 s L H, OF _ _ this] assms show ?thesis
    by (auto simp: calculate_gear_ratio_def)
qed

lemma twin_diff_28: "diff_of twin_ring_road_bike ((1, 34), (6, 28)) < 1"
proof -
  from twin_ratio_between [of "1214 / 1000" 28 "1215 / 1000"] obtain g where
    "calculate_gear_ratio 34 28 = Inr g" "between (1214 / 1000) (1215 / 1000) g" by auto
  from twin_diff_largest_sprocket [OF this] show ?thesis by (auto simp: diff_of_def)
qed

lemma twin_diff_other:
  assumes "s \<in> {14, 16, 18, 20, 22, 24}"
  shows "1 < diff_of twin_ring_road_bike ((i, 34), (j, s))"
proof -
  have "\<exists>g. calculate_gear_ratio 34 s = Inr g \<and> between (141 / 100) (243 / 100) g"
    using assms by (auto intro!: twin_ratio_between)
  then obtain g where
    "calculate_gear_ratio 34 s = Inr g" "between (141 / 100) (243 / 100) g" by auto
  from twin_diff_small_sprocket [OF this] show ?thesis by (auto simp: diff_of_def)
qed

section \<open>Properties of the recommendation engine\<close>

text \<open>
  The searches themselves, for a validated configuration (non-empty lists, every tooth count
  from \<open>MIN_TEETH\<close> to \<open>MAX_TEETH\<close>), a query the form can supply and a wheel of the table:
  when at least one pair is not a crossing, the tooth counts shown are those of a pair of
  indices that is not a crossing, and the crossing flag is false. Whenever the flag of a shown
  recommendation is true, every pair of the configuration is a crossing.
\<close>

lemma never_crossing_when_avoidable:
  assumes "validate_gear_configuration self" and "form_in_range self" and "wheel_selected self"
  shows "((\<exists>i j. i < length (crankset_teeth self) \<and> j < length (cassette_teeth self) \<and>
              \<not> fst (is_chain_crossing self (int i) (int j))) \<longrightarrow>
          (\<exists>r i j. calculate_recommended_gear self = Inr (Some r) \<and>
              i < length (crankset_teeth self) \<and> j < length (cassette_teeth self) \<and>
              rec_chainring r = crankset_teeth self ! i \<and>
              rec_sprocket r = cassette_teeth self ! j \<and>
              \<not> fst (is_chain_crossing self (int i) (int j)) \<and> \<not> rec_crossing r)) \<and>
         (\<forall>r. calculate_recommended_gear self = Inr (Some r) \<longrightarrow> rec_crossing r \<longrightarrow>
              (\<forall>i<length (crankset_teeth self). \<forall>j<length (cassette_teeth self).
                 fst (is_chain_crossing self (int i) (int j))))"
proof -
  from assms have v: "valid_input self" by (simp add: valid_input_def)
  from recommended_gear_result [OF v] obtain p r where
    p: "argmin_first (diff_of self) (candidates self) = Some p"
    and m: "p \<in> set (all_pairs self)"
    and r: "calculate_recommended_gear self = Inr (Some r)"
    "rec_chainring r = snd (fst p)" "rec_sprocket r = snd (snd p)"
    "rec_crossing r = (filter (non_crossing self) (all_pairs self) = [] \<and> \<not> non_crossing self p)"
    by blast
  from m obtain i j where ij: "i < length (crankset_teeth self)" "j < length (cassette_teeth self)"
    "p = ((int i, crankset_teeth self ! i), (int j, cassette_teeth self ! j))"
    by (auto simp: in_all_pairs)
  have first: "\<exists>r i j. calculate_recommended_gear self = Inr (Some r) \<and>
              i < length (crankset_teeth self) \<and> j < length (cassette_teeth self) \<and>
              rec_chainring r = crankset_teeth self ! i \<and>
              rec_sprocket r = cassette_teeth self ! j \<and>
              \<not> fst (is_chain_crossing self (int i) (int j)) \<and> \<not> rec_crossing r"
    if "i' < length (crankset_teeth self)" "j' < length (cassette_teeth self)"
      "\<not> fst (is_chain_crossing self (int i') (int j'))" for i' j'
  proof -
    have "((int i', crankset_teeth self ! i'), (int j', cassette_teeth self ! j'))
            \<in> set (filter (non_crossing self) (all_pairs self))"
      using that by (auto simp: in_all_pairs non_crossing_def)
    then have ne: "filter (non_crossing self) (all_pairs self) \<noteq> []"
      by (metis empty_iff empty_set)
    then have "candidates self = filter (non_crossing self) (all_pairs self)"
      by (simp add: candidates_def)
    with p have "p \<in> set (filter (non_crossing self) (all_pairs self))"
      by (auto dest: argmin_first_mem)
    then have "non_crossing self p" by simp
    then have "\<not> fst (is_chain_crossing self (int i) (int j))"
      by (simp add: non_crossing_def ij)
    with r ij ne show ?thesis by auto
  qed
  have second: "fst (is_chain_crossing self (int i') (int j'))"
    if "calculate_recommended_gear self = Inr (Some r')" "rec_crossing r'"
      "i' < length (crankset_teeth self)" "j' < length (cassette_teeth self)" for r' i' j'
  proof (rule ccontr)
    assume n: "\<not> fst (is_chain_crossing self (int i') (int j'))"
    from that(1) r(1) have "r' = r" by simp
    with that(2) r(4) have e: "filter (non_crossing self) (all_pairs self) = []" by simp
    have "((int i', crankset_teeth self ! i'), (int j', cassette_teeth self ! j'))
            \<in> set (filter (non_crossing self) (all_pairs self))"
      using that(3,4) n by (auto simp: in_all_pairs non_crossing_def)
    with e show False by simp
  qed
  from first second show ?thesis by blast
qed

lemma never_crossing_when_avoidable_witness:
  "validate_gear_configuration road_bike \<and> form_in_range road_bike \<and> wheel_selected road_bike \<and>
   (0 < length (crankset_teeth road_bike) \<and> 0 < length (cassette_teeth road_bike) \<and>
     \<not> fst (is_chain_crossing road_bike (int 0) (int 0))) \<and>
   (\<exists>r i j. calculate_recommended_gear road_bike = Inr (Some r) \<and>
       i < length (crankset_teeth road_bike) \<and> j < length (cassette_teeth road_bike) \<and>
       rec_chainring r = crankset_teeth road_bike ! i \<and>
       rec_sprocket r = cassette_teeth road_bike ! j \<and>
       \<not> fst (is_chain_crossing road_bike (int i) (int j)) \<and> \<not> rec_crossing r) \<and>
   validate_gear_configuration single_sprocket_bike \<and> form_in_range single_sprocket_bike \<and>
   wheel_selected single_sprocket_bike \<and>
   (\<exists>r. calculate_recommended_gear single_sprocket_bike = Inr (Some r) \<and> rec_crossing r \<and>
       (\<forall>i<length (crankset_teeth single_sprocket_bike).
          \<forall>j<length (cassette_teeth single_sprocket_bike).
            fst (is_chain_crossing single_sprocket_bike (int i) (int j))))"
proof -
  have l: "0 < length (crankset_teeth road_bike)" "0 < length (cassette_teeth road_bike)"
    by (simp_all add: road_bike_def)
  from never_crossing_when_avoidable [OF road_bike_valid] l road_bike_first_pair
  have a: "\<exists>r i j. calculate_recommended_gear road_bike = Inr (Some r) \<and>
       i < length (crankset_teeth road_bike) \<and> j < length (cassette_teeth road_bike) \<and>
       rec_chainring r = crankset_teeth road_bike ! i \<and>
       rec_sprocket r = cassette_teeth road_bike ! j \<and>
       \<not> fst (is_chain_crossing road_bike (int i) (int j)) \<and> \<not> rec_crossing r"
    by blast
  have v: "valid_input single_sprocket_bike"
    using single_sprocket_bike_valid by (simp add: valid_input_def)
  from recommended_gear_result [OF v] single_sprocket_all_cross obtain r where
    r: "calculate_recommended_gear single_sprocket_bike = Inr (Some r)" "rec_crossing r"
    by (auto simp: filter_empty_conv)
  from never_crossing_when_avoidable [OF single_sprocket_bike_valid] r
  have b: "\<forall>i<length (crankset_teeth single_sprocket_bike).
          \<forall>j<length (cassette_teeth single_sprocket_bike).
            fst (is_chain_crossing single_sprocket_bike (int i) (int j))"
    by blast
  from a b r l road_bike_valid single_sprocket_bike_valid road_bike_first_pair
  show ?thesis by blast
qed

text \<open>
  When no tooth count occurs twice in either list, the position the panel shows is the pair
  the search picked: a pair that is not a crossing, with the crossing flag false.
\<close>

lemma shown_position_non_crossing:
  assumes "validate_gear_configuration self" and "form_in_range self" and "wheel_selected self"
    and "distinct (crankset_teeth self)" and "distinct (cassette_teeth self)"
    and "i' < length (crankset_teeth self)" and "j' < length (cassette_teeth self)"
    and "\<not> fst (is_chain_crossing self (int i') (int j'))"
  shows "\<exists>r i j. calculate_recommended_gear self = Inr (Some r) \<and>
           i < length (crankset_teeth self) \<and> j < length (cassette_teeth self) \<and>
           rec_chainring_idx r = int i + 1 \<and> rec_sprocket_idx r = int j + 1 \<and>
           rec_chainring r = crankset_teeth self ! i \<and>
           rec_sprocket r = cassette_teeth self ! j \<and>
           \<not> fst (is_chain_crossing self (int i) (int j)) \<and> \<not> rec_crossing r"
proof -
  from assms have v: "valid_input self" by (simp add: valid_input_def)
  from recommended_gear_result [OF v] obtain p r where
    p: "argmin_first (diff_of self) (candidates self) = Some p"
    and m: "p \<in> set (all_pairs self)"
    and r: "calculate_recommended_gear self = Inr (Some r)"
    "rec_chainring r = snd (fst p)" "rec_sprocket r = snd (snd p)"
    "rec_crossing r = (filter (non_crossing self) (all_pairs self) = [] \<and> \<not> non_crossing self p)"
    by blast
  from m obtain i j where ij: "i < length (crankset_teeth self)" "j < length (cassette_teeth self)"
    "p = ((int i, crankset_teeth self ! i), (int j, cassette_teeth self ! j))"
    by (auto simp: in_all_pairs)
  have "((int i', crankset_teeth self ! i'), (int j', cassette_teeth self ! j'))
          \<in> set (filter (non_crossing self) (all_pairs self))"
    using assms(6-8) by (auto simp: in_all_pairs non_crossing_def)
  then have ne: "filter (non_crossing self) (all_pairs self) \<noteq> []"
    by (metis empty_iff empty_set)
  then have "candidates self = filter (non_crossing self) (all_pairs self)"
    by (simp add: candidates_def)
  with p have "p \<in> set (filter (non_crossing self) (all_pairs self))"
    by (auto dest: argmin_first_mem)
  then have "non_crossing self p" by simp
  then have nc: "\<not> fst (is_chain_crossing self (int i) (int j))"
    by (simp add: non_crossing_def ij)
  from recommended_gear_index [OF r(1)] r(2,3) ij
    index_plus_one_distinct [OF assms(4) ij(1)] index_plus_one_distinct [OF assms(5) ij(2)]
  have "rec_chainring_idx r = int i + 1" "rec_sprocket_idx r = int j + 1" by simp_all
  with r ij ne nc show ?thesis by auto
qed

text \<open>
  C1 says that the engine returns a pair that is not a crossing whenever one exists. The
  first search keeps the tooth counts of its pick and not its indices (the second search
  keeps both), and the panel finds the position again with \<^verbatim>\<open>.index()\<close>, which answers
  the first position that holds the tooth count. For the validated configuration with
  chainrings 34, 34 and the cassette of the road preset, at a target of 14 km/h, the pair of
  the second chainring and the last sprocket is not a crossing and the search picks it; the
  panel shows chainring 1 with sprocket 7, a pair the classifier marks as a crossing, and
  the crossing flag is false.
\<close>

theorem recommended_position_is_crossing:
  "validate_gear_configuration twin_ring_road_bike \<and> form_in_range twin_ring_road_bike \<and>
   wheel_selected twin_ring_road_bike \<and>
   \<not> fst (is_chain_crossing twin_ring_road_bike 1 6) \<and>
   (\<exists>r. calculate_recommended_gear twin_ring_road_bike = Inr (Some r) \<and>
      rec_chainring r = 34 \<and> rec_sprocket r = 28 \<and>
      rec_chainring_idx r = 1 \<and> rec_sprocket_idx r = 7 \<and> \<not> rec_crossing r \<and>
      fst (is_chain_crossing twin_ring_road_bike (rec_chainring_idx r - 1) (rec_sprocket_idx r - 1)))"
proof -
  let ?b = twin_ring_road_bike
  let ?best = "((1, 34), (6, 28)) :: (int \<times> int) \<times> (int \<times> int)"
  note v = twin_ring_road_bike_valid
  have nc: "\<not> fst (is_chain_crossing ?b 1 6)"
    by (simp add: is_chain_crossing_def twin_ring_road_bike_lists round_7_times_035)
  have cr: "fst (is_chain_crossing ?b 0 6)"
    by (simp add: is_chain_crossing_def twin_ring_road_bike_lists round_7_times_035)
  have "?best \<in> set (all_pairs ?b)"
    unfolding in_all_pairs
    by (rule exI [of _ 1], rule exI [of _ 6]) (simp add: twin_ring_road_bike_lists)
  with nc have b: "?best \<in> set (filter (non_crossing ?b) (all_pairs ?b))"
    by (simp add: non_crossing_def)
  then have ne: "filter (non_crossing ?b) (all_pairs ?b) \<noteq> []"
    by (metis empty_iff empty_set)
  then have c: "candidates ?b = filter (non_crossing ?b) (all_pairs ?b)"
    by (simp add: candidates_def)
  from recommended_gear_result [OF v] obtain p r where
    p: "argmin_first (diff_of ?b) (candidates ?b) = Some p"
    and m: "p \<in> set (all_pairs ?b)"
    and r: "calculate_recommended_gear ?b = Inr (Some r)"
    "rec_chainring r = snd (fst p)" "rec_sprocket r = snd (snd p)"
    "rec_crossing r = (filter (non_crossing ?b) (all_pairs ?b) = [] \<and> \<not> non_crossing ?b p)"
    by blast
  from b have "?best \<in> set (candidates ?b)" by (simp only: c)
  then obtain k where "k < length (candidates ?b)" "candidates ?b ! k = ?best"
    by (metis in_set_conv_nth)
  with argmin_first_char [OF p] have "diff_of ?b p \<le> diff_of ?b ?best" by auto
  with twin_diff_28 have small: "diff_of ?b p < 1" by simp
  from all_pairs_teeth(1,2) [OF v m]
  have t: "snd (fst p) = 34" "snd (snd p) \<in> {14, 16, 18, 20, 22, 24, 28}"
    by (simp_all add: twin_ring_road_bike_lists)
  have s: "snd (snd p) = 28"
  proof (rule ccontr)
    assume "snd (snd p) \<noteq> 28"
    with t(2) have "snd (snd p) \<in> {14, 16, 18, 20, 22, 24}" by auto
    from twin_diff_other [OF this, of "fst (fst p)" "fst (snd p)"] t(1) small
    show False by (cases p) auto
  qed
  from recommended_gear_index [OF r(1)] r(2,3) t(1) s
  have i: "rec_chainring_idx r = 1" "rec_sprocket_idx r = 7"
    by (simp_all add: twin_ring_road_bike_lists)
  from ne r(4) have "\<not> rec_crossing r" by simp
  with v nc cr r t(1) s i show ?thesis by (simp add: valid_input_def)
qed

text \<open>
  C5. For a validated configuration and query the engine shows the teeth of the candidate at
  some position \<open>k\<close> of the iteration order (chainring outer, sprocket inner) such that
  every candidate's \<^verbatim>\<open>diff\<close> is a finite float, none is smaller than the one at \<open>k\<close>, and
  every candidate with a \<^verbatim>\<open>diff\<close> equal to it comes at \<open>k\<close> or later: among the pairs that
  attain the minimal difference the first one wins.
\<close>

theorem ties_resolve_to_first:
  assumes "validate_gear_configuration self" and "form_in_range self" and "wheel_selected self"
  shows "\<exists>r k. calculate_recommended_gear self = Inr (Some r) \<and>
           k < length (candidates self) \<and>
           rec_chainring r = snd (fst (candidates self ! k)) \<and>
           rec_sprocket r = snd (snd (candidates self ! k)) \<and>
           (\<forall>m<length (candidates self).
              gear_diff self (snd (fst (candidates self ! m))) (snd (snd (candidates self ! m)))
                = Inr (Finite (diff_of self (candidates self ! m))) \<and>
              diff_of self (candidates self ! k) \<le> diff_of self (candidates self ! m) \<and>
              (diff_of self (candidates self ! m) = diff_of self (candidates self ! k) \<longrightarrow> k \<le> m))"
proof -
  from assms have v: "valid_input self" by (simp add: valid_input_def)
  from recommended_gear_result [OF v] obtain p r where
    p: "argmin_first (diff_of self) (candidates self) = Some p"
    and r: "calculate_recommended_gear self = Inr (Some r)"
    "rec_chainring r = snd (fst p)" "rec_sprocket r = snd (snd p)"
    by blast
  from argmin_first_char [OF p] obtain k where k: "k < length (candidates self)"
    "candidates self ! k = p"
    "\<forall>m<length (candidates self). diff_of self p \<le> diff_of self (candidates self ! m)"
    "\<forall>m<k. diff_of self p < diff_of self (candidates self ! m)" by auto
  have sub: "set (candidates self) \<subseteq> set (all_pairs self)"
    by (auto simp: candidates_def)
  have "gear_diff self (snd (fst (candidates self ! m))) (snd (snd (candidates self ! m)))
                = Inr (Finite (diff_of self (candidates self ! m)))"
    if "m < length (candidates self)" for m
    using gear_diff_eq [OF v, of "candidates self ! m"] sub nth_mem [OF that] by blast
  moreover have "k \<le> m" if "diff_of self (candidates self ! m) = diff_of self (candidates self ! k)" for m
    using k(2,4) that by (cases "m < k") auto
  ultimately show ?thesis using r k by auto
qed

theorem ties_resolve_to_first_witness:
  "validate_gear_configuration road_bike \<and> form_in_range road_bike \<and> wheel_selected road_bike \<and>
   (\<exists>r k. calculate_recommended_gear road_bike = Inr (Some r) \<and>
           k < length (candidates road_bike) \<and>
           rec_chainring r = snd (fst (candidates road_bike ! k)) \<and>
           rec_sprocket r = snd (snd (candidates road_bike ! k)) \<and>
           (\<forall>m<length (candidates road_bike).
              gear_diff road_bike (snd (fst (candidates road_bike ! m)))
                  (snd (snd (candidates road_bike ! m)))
                = Inr (Finite (diff_of road_bike (candidates road_bike ! m))) \<and>
              diff_of road_bike (candidates road_bike ! k) \<le> diff_of road_bike (candidates road_bike ! m) \<and>
              (diff_of road_bike (candidates road_bike ! m) = diff_of road_bike (candidates road_bike ! k)
                 \<longrightarrow> k \<le> m)))"
  using ties_resolve_to_first [OF road_bike_valid] road_bike_valid by blast

text \<open>
  C8. The tip of a shown recommendation is decided by the slope alone, by the comparisons
  \<open>slope > 8\<close>, \<open>slope > 0\<close>, \<open>slope < -5\<close> in this order, the last case being the flat
  tip; every slope from -5 to 0, zero included, gets the flat tip.
\<close>

theorem advice_by_slope:
  assumes "calculate_recommended_gear self = Inr (Some r)"
  shows "rec_advice r =
           (if py_lt (Finite 8) (slope_var self) then SteepClimb
            else if py_lt (Finite 0) (slope_var self) then MildClimb
            else if py_lt (slope_var self) (Finite (- 5)) then Descent
            else Flat) \<and>
         (\<forall>s. slope_var self = Finite s \<longrightarrow> - 5 \<le> s \<longrightarrow> s \<le> 0 \<longrightarrow> rec_advice r = Flat)"
proof -
  from assms obtain bc bs cr where "show_recommendation self bc bs cr = Inr (Some r)"
    by (auto simp: calculate_recommended_gear_def split: sum.splits prod.splits if_splits option.splits)
  from show_recommendation_advice [OF this] show ?thesis by auto
qed

theorem advice_by_slope_witness:
  "\<exists>r. calculate_recommended_gear road_bike = Inr (Some r) \<and> slope_var road_bike = Finite 0 \<and>
       - 5 \<le> (0::rat) \<and> (0::rat) \<le> 0 \<and> rec_advice r = Flat"
proof -
  have v: "valid_input road_bike" using road_bike_valid by (simp add: valid_input_def)
  from recommended_gear_result [OF v] obtain r where
    r: "calculate_recommended_gear road_bike = Inr (Some r)" by blast
  have s: "slope_var road_bike = Finite 0" by (simp add: road_bike_def)
  from advice_by_slope [OF r] s have "rec_advice r = Flat" by simp
  with r s show ?thesis by auto
qed

section \<open>The overlap percentage of a single-point range\<close>

lemma overlap_degenerate:
  assumes "2 \<le> length (crankset_teeth self)"
  shows "calculate_overlap_analysis self [[Finite g], [Finite g]] (Some [[True], [True]])
           = Inl ZeroDivisionError"
proof -
  have r: "pair_ranges [Finite g] [Finite g] (Some [[True], [True]]) 0
             = Inr (IncludingCrossings, Finite g, Finite g, Finite g, Finite g)"
    by (simp add: pair_ranges_def py_nth_def py_min_list_def py_max_list_def)
  have "overlap_of_pair self [[Finite g], [Finite g]] (Some [[True], [True]]) 0
          = Inl ZeroDivisionError"
    using assms
    by (auto simp: overlap_of_pair_def py_nth_def r py_max2_def py_min2_def fl_zero)
  then show ?thesis
    by (simp add: calculate_overlap_analysis_def)
qed

lemma twin_ring_ratio:
  "calculate_gear_ratio 34 14 = Inr (Finite (round_to_double (34 / 14)))"
  using fin_int_truediv [of 34 34 14] by (simp add: calculate_gear_ratio_def)

text \<open>
  C4 says that with a single-point range of the first chainring (\<open>max1 - min1 = 0\<close>) and
  \<open>overlap_start \<le> overlap_end\<close> the overlap percentage is 100 and no division by zero is
  raised. The code divides by \<open>max_ratio1 - min_ratio1\<close> unguarded: for the validated
  configuration with chainrings 34, 34 and the sprocket 14, on the ratios and crossing flags
  its caller computes, \<^verbatim>\<open>calculate_overlap_analysis\<close> raises ZeroDivisionError.
\<close>

theorem overlap_division_by_zero:
  "validate_gear_configuration twin_ring_bike \<and>
   map (\<lambda>chainring. map (\<lambda>sprocket. calculate_gear_ratio chainring sprocket)
          (cassette_teeth twin_ring_bike)) (crankset_teeth twin_ring_bike)
     = [[Inr (Finite (round_to_double (34 / 14)))], [Inr (Finite (round_to_double (34 / 14)))]] \<and>
   map (\<lambda>i. map (\<lambda>j. fst (is_chain_crossing twin_ring_bike i j)) [0]) [0, 1]
     = [[True], [True]] \<and>
   calculate_overlap_analysis twin_ring_bike
       [[Finite (round_to_double (34 / 14))], [Finite (round_to_double (34 / 14))]]
       (Some [[True], [True]])
     = Inl ZeroDivisionError"
proof -
  have l: "2 \<le> length (crankset_teeth twin_ring_bike)" by (simp add: twin_ring_bike_def)
  have v: "validate_gear_configuration twin_ring_bike"
    by (simp add: twin_ring_bike_def validate_gear_configuration_def MIN_TEETH_def MAX_TEETH_def)
  have c: "map (\<lambda>i. map (\<lambda>j. fst (is_chain_crossing twin_ring_bike i j)) [0]) [0, 1]
     = [[True], [True]]"
    by (simp add: twin_ring_bike_def is_chain_crossing_def round_1_times_035)
  have g: "map (\<lambda>chainring. map (\<lambda>sprocket. calculate_gear_ratio chainring sprocket)
          (cassette_teeth twin_ring_bike)) (crankset_teeth twin_ring_bike)
     = [[Inr (Finite (round_to_double (34 / 14)))], [Inr (Finite (round_to_double (34 / 14)))]]"
    by (simp add: twin_ring_bike_def twin_ring_ratio)
  from v g c overlap_degenerate [OF l] show ?thesis by blast
qed

section \<open>Building a configuration sorts its lists\<close>











end
